theory Spec2Isabelle
  imports Main "HOL-Library.Word"
begin

unbundle bit_operations_syntax

section \<open>The Universal Machine of pkg/um/um.go\<close>

subsection \<open>Data model\<close>

text \<open>
  A platter is Go's \<^verbatim>\<open>uint32\<close>. A Go slice is a reference to a backing array; no slice
  of the program is ever re-sliced, so a slice is modelled by the address of its backing
  array in \<open>arrays\<close>, the memory of the Go runtime (an array is never freed while
  it is referenced, and a \<^verbatim>\<open>make\<close> returns an array that nothing else refers to:
  the next unused address). A key that is missing from the Go map \<^verbatim>\<open>Heap\<close> reads
  as the nil slice, of length 0.
\<close>

type_synonym platter = "32 word"
type_synonym byte = "8 word"
type_synonym slice = nat

text \<open>The content of a backup file: what \<^verbatim>\<open>gob\<close> transmits of the exported fields.\<close>

record snapshot =
  sGpr :: "platter list"
  sHeap :: "(platter \<times> platter list) list"
  sNextHeap :: "platter option"
  sExFinger :: "int option"

text \<open>What \<^verbatim>\<open>doBackup\<close> does to the backup folder, in the order it does it.\<close>

datatype fs_event =
    CreateTemp
  | EncodeTemp snapshot
  | WriteArchive int snapshot
  | RenameTemp snapshot

text \<open>
  The struct \<^verbatim>\<open>UniversalMachine\<close>. \<open>ExFinger\<close> is a Go \<^verbatim>\<open>int\<close> (64 bits on the
  platforms considered; the program only ever stores values between \<open>-1\<close> and
  \<open>2 ^ 32\<close> in it, so it is an unbounded integer here). \<open>consoleOut\<close> holds the
  bytes handed to the writer so far, \<open>lastBackup\<close> is a time in nanoseconds since Go's
  zero time. The channel \<^verbatim>\<open>done\<close> is the result of \<open>spin\<close>; \<^verbatim>\<open>consoleIn\<close> is the
  environment of each step. Three more fields hold what the struct refers to:
  \<open>arrays\<close> (the backing arrays of all slices), \<open>disk\<close> (the events in the backup
  folder) and \<open>programHeap\<close> (the local variable of \<^verbatim>\<open>spin\<close> that caches the slice
  of array 0 across iterations; \<open>None\<close> is the nil slice).
\<close>

record UniversalMachine =
  Gpr :: "platter list"
  Heap :: "platter \<rightharpoonup> slice"
  NextHeap :: platter
  ExFinger :: int
  consoleOut :: "byte list"
  backupFolder :: string
  lastBackup :: int
  arrays :: "platter list list"
  disk :: "fs_event list"
  programHeap :: "slice option"

text \<open>
  The environment of one iteration of \<^verbatim>\<open>spin\<close>: what \<^verbatim>\<open>consoleIn.Read\<close> returns on
  a buffer of one byte (the count, the byte in the buffer afterwards, the error), the
  four readings of the clock in \<^verbatim>\<open>backup\<close> and \<^verbatim>\<open>doBackup\<close>, whether each file
  operation of \<^verbatim>\<open>doBackup\<close> succeeds, and the order in which \<^verbatim>\<open>gob\<close> iterates over
  the map.
\<close>

datatype read_error = EOF | ReadFailure

record env =
  rd_count :: nat
  rd_byte :: byte
  rd_err :: "read_error option"
  now1 :: int
  now2 :: int
  nowStamp :: int
  now3 :: int
  tempFileOK :: bool
  encodeOK :: bool
  archiveOK :: bool
  renameOK :: bool
  mapOrder :: "platter list"

datatype panic = IndexOutOfRange | DivideByZero

datatype outcome =
    Continue UniversalMachine
  | Halt "read_error option" UniversalMachine
  | Panic panic

definition New :: "string \<Rightarrow> UniversalMachine" where
  "New folder =
     \<lparr>Gpr = [0, 0, 0, 0, 0, 0, 0, 0], Heap = Map.empty, NextHeap = 0, ExFinger = 0,
      consoleOut = [], backupFolder = folder, lastBackup = 0,
      arrays = [], disk = [], programHeap = None\<rparr>"

text \<open>\<^verbatim>\<open>um.Heap[k]\<close> as a sequence of platters: the nil slice for a missing key.\<close>

definition deref :: "UniversalMachine \<Rightarrow> slice option \<Rightarrow> platter list" where
  "deref um s = (case s of None \<Rightarrow> [] | Some a \<Rightarrow> arrays um ! a)"

definition segment :: "UniversalMachine \<Rightarrow> platter \<Rightarrow> platter list" where
  "segment um k = deref um (Heap um k)"

text \<open>\<^verbatim>\<open>make([]platter, n)\<close>: a new zeroed array at the next unused address.\<close>

definition make :: "nat \<Rightarrow> UniversalMachine \<Rightarrow> slice \<times> UniversalMachine" where
  "make n um = (length (arrays um), um\<lparr>arrays := arrays um @ [replicate n 0]\<rparr>)"

text \<open>\<^verbatim>\<open>copy(dst, src)\<close> copies \<open>min (len dst) (len src)\<close> elements.\<close>

definition copy_slice :: "slice option \<Rightarrow> platter list \<Rightarrow> UniversalMachine \<Rightarrow> UniversalMachine" where
  "copy_slice dst src um =
     (case dst of
        None \<Rightarrow> um
      | Some a \<Rightarrow>
          um\<lparr>arrays := (arrays um)
               [a := take (length (arrays um ! a)) src @ drop (length src) (arrays um ! a)]\<rparr>)"

definition allocateHeapArray :: "platter \<Rightarrow> UniversalMachine \<Rightarrow> platter \<times> UniversalMachine" where
  "allocateHeapArray len um =
     (let (s, um1) = make (unat len) um;
          um2 = um1\<lparr>Heap := (Heap um1)(NextHeap um1 \<mapsto> s)\<rparr>;
          um3 = um2\<lparr>NextHeap := NextHeap um2 + 1\<rparr>
      in (NextHeap um3 - 1, um3))"

subsection \<open>Instruction fields\<close>

definition op_of :: "platter \<Rightarrow> platter" where
  "op_of instruction = instruction AND 0xf0000000"

definition regA :: "platter \<Rightarrow> platter" where
  "regA instruction = drop_bit 6 (instruction AND 0x000001C0)"

definition regB :: "platter \<Rightarrow> platter" where
  "regB instruction = drop_bit 3 (instruction AND 0x00000038)"

definition regC :: "platter \<Rightarrow> platter" where
  "regC instruction = instruction AND 0x00000007"

definition regA13 :: "platter \<Rightarrow> platter" where
  "regA13 instruction = drop_bit 25 (instruction AND 0x0e000000)"

definition value13 :: "platter \<Rightarrow> platter" where
  "value13 instruction = instruction AND 0x01ffffff"

definition reg :: "UniversalMachine \<Rightarrow> platter \<Rightarrow> platter" where
  "reg um r = Gpr um ! unat r"

definition set_reg :: "platter \<Rightarrow> platter \<Rightarrow> UniversalMachine \<Rightarrow> UniversalMachine" where
  "set_reg r v um = um\<lparr>Gpr := (Gpr um)[unat r := v]\<rparr>"

subsection \<open>The snapshot codec\<close>

text \<open>
  Modelled from the spec: the snapshot codec, \<^verbatim>\<open>Encode\<close> and \<^verbatim>\<open>Decode\<close> of Go's
  library \<^verbatim>\<open>encoding/gob\<close>, which is not under src/. The spec (section 6, Snapshot
  format) describes a serialization of the register file, the heap as a mapping of
  identifier to element sequence, the next-identifier counter and the execution finger,
  whose only contract is the exact round trip. The model follows the library's
  documentation where the spec is silent: only exported fields are sent; a struct field
  with the zero value is omitted, arrays and non-nil maps excepted; the entries of a map
  are sent in the order of Go's map iteration (a parameter here); the decoder leaves a
  field that is missing from the stream as it is in the receiver, checks the length of an
  array, adds the entries of a map to the receiver's map, and makes a new slice for each
  element sequence.
\<close>

datatype gob_stream = Malformed | Encoded snapshot

datatype load_error = ErrReading | ErrConverting | ErrDecoding

definition gobEncode :: "platter list \<Rightarrow> UniversalMachine \<Rightarrow> snapshot" where
  "gobEncode ks um =
     \<lparr>sGpr = Gpr um,
      sHeap = map (\<lambda>k. (k, segment um k)) ks,
      sNextHeap = (if NextHeap um = 0 then None else Some (NextHeap um)),
      sExFinger = (if ExFinger um = 0 then None else Some (ExFinger um))\<rparr>"

fun decodeMap :: "(platter \<times> platter list) list \<Rightarrow> UniversalMachine \<Rightarrow> UniversalMachine" where
  "decodeMap [] um = um"
| "decodeMap ((k, xs) # es) um =
     decodeMap es
       (um\<lparr>Heap := (Heap um)(k \<mapsto> length (arrays um)), arrays := arrays um @ [xs]\<rparr>)"

definition gobDecode :: "gob_stream \<Rightarrow> UniversalMachine \<Rightarrow> load_error + UniversalMachine" where
  "gobDecode b um =
     (case b of
        Malformed \<Rightarrow> Inl ErrDecoding
      | Encoded s \<Rightarrow>
          if length (sGpr s) \<noteq> 8 then Inl ErrDecoding
          else
            let um1 = um\<lparr>Gpr := sGpr s\<rparr>;
                um2 = decodeMap (sHeap s) um1;
                um3 = (case sNextHeap s of None \<Rightarrow> um2 | Some n \<Rightarrow> um2\<lparr>NextHeap := n\<rparr>);
                um4 = (case sExFinger s of None \<Rightarrow> um3 | Some f \<Rightarrow> um3\<lparr>ExFinger := f\<rparr>)
            in Inr um4)"

subsection \<open>The checkpointer\<close>

text \<open>
  \<^verbatim>\<open>time.Since(t)\<close> is \<^verbatim>\<open>time.Now().Sub(t)\<close>, a \<^verbatim>\<open>Duration\<close> in nanoseconds that
  saturates at the ends of \<^verbatim>\<open>int64\<close>.
\<close>

definition since :: "int \<Rightarrow> int \<Rightarrow> int" where
  "since now t = max (- (2 ^ 63)) (min (2 ^ 63 - 1) (now - t))"

definition Minute :: int where
  "Minute = 60000000000"

definition doBackup :: "env \<Rightarrow> bool \<Rightarrow> UniversalMachine \<Rightarrow> UniversalMachine" where
  "doBackup e withTimestampFile um =
     (if \<not> tempFileOK e then um
      else
        let um1 = um\<lparr>disk := disk um @ [CreateTemp]\<rparr> in
        if \<not> encodeOK e then um1
        else
          let snap = gobEncode (mapOrder e) um1;
              um2 = um1\<lparr>disk := disk um1 @ [EncodeTemp snap]\<rparr>;
              um3 = (if withTimestampFile \<and> archiveOK e
                     then um2\<lparr>disk := disk um2 @ [WriteArchive (nowStamp e) snap]\<rparr>
                     else um2)
          in if renameOK e then um3\<lparr>disk := disk um3 @ [RenameTemp snap]\<rparr> else um3)"

definition backup :: "env \<Rightarrow> UniversalMachine \<Rightarrow> UniversalMachine" where
  "backup e um =
     (if backupFolder um \<noteq> [] then
        if since (now1 e) (lastBackup um) > Minute then
          (doBackup e (since (now2 e) (lastBackup um) > 15 * Minute) um)\<lparr>lastBackup := now3 e\<rparr>
        else um
      else um)"

subsection \<open>The loaders\<close>

definition LoadFromBackup :: "gob_stream \<Rightarrow> UniversalMachine \<Rightarrow> load_error + UniversalMachine" where
  "LoadFromBackup b um =
     (case gobDecode b um of
        Inl e \<Rightarrow> Inl e
      | Inr um1 \<Rightarrow> Inr (um1\<lparr>ExFinger := ExFinger um1 - 1\<rparr>))"

text \<open>
  \<^verbatim>\<open>ioutil.ReadAll\<close> returns the bytes of the reader, or fails after some of them.
  \<^verbatim>\<open>binary.Read\<close> into a slice of \<open>n\<close> platters reads \<open>4 * n\<close> bytes at once
  (\<^verbatim>\<open>io.ReadFull\<close>), fails when the buffer holds fewer, and decodes each group of four
  with \<^verbatim>\<open>BigEndian.Uint32\<close>.
\<close>

datatype reader = Bytes "byte list" | Broken "byte list"

definition Uint32 :: "byte list \<Rightarrow> platter" where
  "Uint32 b = ucast (b ! 3) OR push_bit 8 (ucast (b ! 2)) OR push_bit 16 (ucast (b ! 1))
                OR push_bit 24 (ucast (b ! 0))"

fun decode_platters :: "nat \<Rightarrow> byte list \<Rightarrow> platter list" where
  "decode_platters 0 bs = []"
| "decode_platters (Suc n) bs = Uint32 (take 4 bs) # decode_platters n (drop 4 bs)"

definition binaryRead :: "nat \<Rightarrow> byte list \<Rightarrow> platter list option" where
  "binaryRead n bs = (if length bs < 4 * n then None else Some (decode_platters n bs))"

text \<open>
  \<^verbatim>\<open>math.Ceil(float64(len) / 4)\<close> is exact below \<open>2 ^ 53\<close> bytes: the quotient rounded
  up. The conversion \<^verbatim>\<open>platter(len(platterProgram))\<close> keeps the low 32 bits. The result
  is the error returned and the machine afterwards.
\<close>

definition LoadProgram :: "reader \<Rightarrow> UniversalMachine \<Rightarrow> load_error option \<times> UniversalMachine" where
  "LoadProgram p um =
     (case p of
        Broken _ \<Rightarrow> (Some ErrReading, um)
      | Bytes programData \<Rightarrow>
          let numPlatters = (length programData + 3) div 4 in
          case binaryRead numPlatters programData of
            None \<Rightarrow> (Some ErrConverting, um)
          | Some platterProgram \<Rightarrow>
              let (ref, um1) = allocateHeapArray (of_nat (length platterProgram)) um
              in (None, copy_slice (Heap um1 ref) platterProgram um1))"

subsection \<open>The dispatch loop\<close>

definition fetch :: "UniversalMachine \<Rightarrow> platter option" where
  "fetch um =
     (case programHeap um of
        None \<Rightarrow> None
      | Some a \<Rightarrow>
          if 0 \<le> ExFinger um \<and> nat (ExFinger um) < length (arrays um ! a)
          then Some (arrays um ! a ! nat (ExFinger um))
          else None)"

definition conditionalMove :: "platter \<Rightarrow> UniversalMachine \<Rightarrow> outcome" where
  "conditionalMove i um =
     Continue (if reg um (regC i) \<noteq> 0 then set_reg (regA i) (reg um (regB i)) um else um)"

definition arrayIndex :: "platter \<Rightarrow> UniversalMachine \<Rightarrow> outcome" where
  "arrayIndex i um =
     (let s = segment um (reg um (regB i)) in
      if unat (reg um (regC i)) < length s
      then Continue (set_reg (regA i) (s ! unat (reg um (regC i))) um)
      else Panic IndexOutOfRange)"

definition arrayAmendment :: "platter \<Rightarrow> UniversalMachine \<Rightarrow> outcome" where
  "arrayAmendment i um =
     (case Heap um (reg um (regA i)) of
        None \<Rightarrow> Panic IndexOutOfRange
      | Some a \<Rightarrow>
          if unat (reg um (regB i)) < length (arrays um ! a)
          then Continue
                 (um\<lparr>arrays := (arrays um)
                       [a := (arrays um ! a)[unat (reg um (regB i)) := reg um (regC i)]]\<rparr>)
          else Panic IndexOutOfRange)"

definition addition :: "platter \<Rightarrow> UniversalMachine \<Rightarrow> outcome" where
  "addition i um = Continue (set_reg (regA i) (reg um (regB i) + reg um (regC i)) um)"

definition multiplication :: "platter \<Rightarrow> UniversalMachine \<Rightarrow> outcome" where
  "multiplication i um = Continue (set_reg (regA i) (reg um (regB i) * reg um (regC i)) um)"

definition division :: "platter \<Rightarrow> UniversalMachine \<Rightarrow> outcome" where
  "division i um =
     (if reg um (regC i) = 0 then Panic DivideByZero
      else Continue (set_reg (regA i) (reg um (regB i) div reg um (regC i)) um))"

definition notAnd :: "platter \<Rightarrow> UniversalMachine \<Rightarrow> outcome" where
  "notAnd i um = Continue (set_reg (regA i) (NOT (reg um (regB i) AND reg um (regC i))) um)"

definition allocation :: "platter \<Rightarrow> UniversalMachine \<Rightarrow> outcome" where
  "allocation i um =
     (let (ref, um1) = allocateHeapArray (reg um (regC i)) um
      in Continue (set_reg (regB i) ref um1))"

definition abandonment :: "platter \<Rightarrow> UniversalMachine \<Rightarrow> outcome" where
  "abandonment i um = Continue (um\<lparr>Heap := (Heap um)(reg um (regC i) := None)\<rparr>)"

definition outputByte :: "platter \<Rightarrow> UniversalMachine \<Rightarrow> outcome" where
  "outputByte i um = Continue (um\<lparr>consoleOut := consoleOut um @ [ucast (reg um (regC i))]\<rparr>)"

definition inputByte :: "env \<Rightarrow> platter \<Rightarrow> UniversalMachine \<Rightarrow> outcome" where
  "inputByte e i um =
     (let um1 = backup e um;
          um2 = (if rd_count e = 1 then set_reg (regC i) (ucast (rd_byte e)) um1 else um1)
      in case rd_err e of
           None \<Rightarrow> Continue um2
         | Some err \<Rightarrow>
             if err = EOF then Continue (set_reg (regC i) 0xffffffff um2)
             else Halt (Some err) um2)"

definition loadProgram :: "platter \<Rightarrow> UniversalMachine \<Rightarrow> outcome" where
  "loadProgram i um =
     (let valInRegB = reg um (regB i);
          um3 = (if valInRegB \<noteq> 0 then
                   let (newProgram, um1) = make (length (segment um valInRegB)) um;
                       um2 = copy_slice (Some newProgram) (segment um1 valInRegB) um1;
                       um2' = um2\<lparr>Heap := (Heap um2)(0 \<mapsto> newProgram)\<rparr>
                   in um2'\<lparr>programHeap := Heap um2' 0\<rparr>
                 else um)
      in Continue (um3\<lparr>ExFinger := uint (reg um3 (regC i))\<rparr>))"

definition orthography :: "platter \<Rightarrow> UniversalMachine \<Rightarrow> outcome" where
  "orthography i um = Continue (set_reg (regA13 i) (value13 i) um)"

definition dispatch :: "env \<Rightarrow> platter \<Rightarrow> UniversalMachine \<Rightarrow> outcome" where
  "dispatch e instruction um =
     (let op = op_of instruction in
      if op = 0 then conditionalMove instruction um
      else if op = 0x10000000 then arrayIndex instruction um
      else if op = 0x20000000 then arrayAmendment instruction um
      else if op = 0x30000000 then addition instruction um
      else if op = 0x40000000 then multiplication instruction um
      else if op = 0x50000000 then division instruction um
      else if op = 0x60000000 then notAnd instruction um
      else if op = 0x70000000 then Halt None um
      else if op = 0x80000000 then allocation instruction um
      else if op = 0x90000000 then abandonment instruction um
      else if op = 0xA0000000 then outputByte instruction um
      else if op = 0xB0000000 then inputByte e instruction um
      else if op = 0xC0000000 then loadProgram instruction um
      else if op = 0xD0000000 then orthography instruction um
      else Continue um)"

text \<open>One iteration of the loop of \<^verbatim>\<open>spin\<close>: fetch, advance the finger, dispatch.\<close>

definition spin_body :: "env \<Rightarrow> UniversalMachine \<Rightarrow> outcome" where
  "spin_body e um =
     (case fetch um of
        None \<Rightarrow> Panic IndexOutOfRange
      | Some instruction \<Rightarrow> dispatch e instruction (um\<lparr>ExFinger := ExFinger um + 1\<rparr>))"

text \<open>
  The loop may run forever. It takes one environment per iteration and returns \<open>None\<close>
  when they run out before the machine halts or panics.
\<close>

fun spin_loop :: "env list \<Rightarrow> UniversalMachine \<Rightarrow> outcome option" where
  "spin_loop [] um = None"
| "spin_loop (e # es) um =
     (case spin_body e um of
        Continue um1 \<Rightarrow> spin_loop es um1
      | Halt err um1 \<Rightarrow> Some (Halt err um1)
      | Panic p \<Rightarrow> Some (Panic p))"

definition spin :: "env list \<Rightarrow> UniversalMachine \<Rightarrow> outcome option" where
  "spin es um = spin_loop es (um\<lparr>programHeap := Heap um 0\<rparr>)"

subsection \<open>The instruction format of the specification\<close>

text \<open>
  The specification's reading of a platter: the four most significant bits form the
  opcode number; for the opcodes 0 to 12 the registers A, B and C are the bits 6 to 8,
  3 to 5 and 0 to 2; for the opcode 13 the register A is the bits 25 to 27 and the
  immediate value is the bits 0 to 24.
\<close>

definition opcode :: "platter \<Rightarrow> nat" where
  "opcode instruction = unat (drop_bit 28 instruction)"

definition bits :: "nat \<Rightarrow> nat \<Rightarrow> platter \<Rightarrow> platter" where
  "bits lo n instruction = take_bit n (drop_bit lo instruction)"



text \<open>The machine an iteration leaves behind, when it does not panic.\<close>

fun state_of :: "outcome \<Rightarrow> UniversalMachine option" where
  "state_of (Continue um) = Some um"
| "state_of (Halt err um) = Some um"
| "state_of (Panic p) = None"

subsection \<open>Concrete machines and environments\<close>

text \<open>
  A machine whose loaded program is \<open>ps\<close>, as \<^verbatim>\<open>spin\<close> sees it at its first
  iteration, and an environment in which the read delivers the byte \<open>0x41\<close> with no
  error and every file operation succeeds.
\<close>

definition running :: "string \<Rightarrow> platter list \<Rightarrow> UniversalMachine" where
  "running folder ps =
     \<lparr>Gpr = [0, 0, 0, 0, 0, 0, 0, 0], Heap = [0 \<mapsto> 0], NextHeap = 1, ExFinger = 0,
      consoleOut = [], backupFolder = folder, lastBackup = 0,
      arrays = [ps], disk = [], programHeap = Some 0\<rparr>"

definition quiet :: env where
  "quiet =
     \<lparr>rd_count = 1, rd_byte = 0x41, rd_err = None,
      now1 = 0, now2 = 0, nowStamp = 0, now3 = 0,
      tempFileOK = True, encodeOK = True, archiveOK = True, renameOK = True,
      mapOrder = [0]\<rparr>"

subsection \<open>The register an instruction names as its destination\<close>

text \<open>
  The register an instruction may write, in the specification's fields: A for the opcodes
  0, 1, 3, 4, 5 and 6, the wide field A for 13, B for 8, C for 11, none otherwise.
\<close>

definition destination :: "platter \<Rightarrow> nat option" where
  "destination instruction =
     (if opcode instruction \<in> {0, 1, 3, 4, 5, 6} then Some (unat (bits 6 3 instruction))
      else if opcode instruction = 13 then Some (unat (bits 25 3 instruction))
      else if opcode instruction = 8 then Some (unat (bits 3 3 instruction))
      else if opcode instruction = 11 then Some (unat (bits 0 3 instruction))
      else None)"

subsection \<open>Runs\<close>

text \<open>
  The machine after as many iterations as there are environments, when none of them
  halts or panics; and the identifiers that the executions of opcode 8 place in their
  register B along such a run, in order.
\<close>

fun run :: "env list \<Rightarrow> UniversalMachine \<Rightarrow> UniversalMachine option" where
  "run [] um = Some um"
| "run (e # es) um =
     (case spin_body e um of
        Continue um1 \<Rightarrow> run es um1
      | Halt err um1 \<Rightarrow> None
      | Panic p \<Rightarrow> None)"

fun allocations :: "env list \<Rightarrow> UniversalMachine \<Rightarrow> platter list" where
  "allocations [] um = []"
| "allocations (e # es) um =
     (case fetch um of
        None \<Rightarrow> []
      | Some i \<Rightarrow>
          (case spin_body e um of
             Continue um1 \<Rightarrow>
               (if opcode i = 8 then [reg um1 (regB i)] else []) @ allocations es um1
           | Halt err um1 \<Rightarrow> []
           | Panic p \<Rightarrow> []))"

subsection \<open>A program that allocates without end\<close>

text \<open>
  Three instructions: allocate an array of R[0] = 0 platters into R[1]; abandon the array
  R[1]; load program 0 with the finger at R[0] = 0, that is, jump to the start.
  \<open>churned k\<close> is the machine after \<open>k\<close> rounds of it.
\<close>

definition churn :: "platter list" where
  "churn = [0x80000008, 0x90000001, 0xC0000000]"

definition churned :: "nat \<Rightarrow> UniversalMachine" where
  "churned k =
     \<lparr>Gpr = [0, of_nat k, 0, 0, 0, 0, 0, 0], Heap = [0 \<mapsto> 0], NextHeap = 1 + of_nat k,
      ExFinger = 0, consoleOut = [], backupFolder = [], lastBackup = 0,
      arrays = churn # replicate k [], disk = [], programHeap = Some 0\<rparr>"

subsection \<open>Well-formed memory\<close>

text \<open>
  Every slice in the Go map refers to an array that exists. It holds of a new machine and
  every operation keeps it; it says no more than that the map holds slices.
\<close>

definition valid_heap :: "UniversalMachine \<Rightarrow> bool" where
  "valid_heap um \<longleftrightarrow> (\<forall>k a. Heap um k = Some a \<longrightarrow> a < length (arrays um))"

text \<open>
  A machine about to execute Load Program with R[B] = R[1] = 1 and R[C] = R[0] = 0, whose
  segment 1 holds the single instruction Halt.
\<close>

definition replacing :: UniversalMachine where
  "replacing =
     \<lparr>Gpr = [0, 1, 0, 0, 0, 0, 0, 0], Heap = [0 \<mapsto> 0, 1 \<mapsto> 1], NextHeap = 2,
      ExFinger = 0, consoleOut = [], backupFolder = [], lastBackup = 0,
      arrays = [[0xC0000008], [0x70000000]], disk = [], programHeap = Some 0\<rparr>"

subsection \<open>The program file of the specification\<close>

text \<open>
  Each consecutive group of four bytes read as a big-endian unsigned 32-bit number, and
  the file of a sequence of platters.
\<close>

fun platters :: "byte list \<Rightarrow> platter list" where
  "platters (b0 # b1 # b2 # b3 # bs) =
     of_nat (unat b0 * 2 ^ 24 + unat b1 * 2 ^ 16 + unat b2 * 2 ^ 8 + unat b3) # platters bs"
| "platters bs = []"

definition program_file :: "platter list \<Rightarrow> byte list" where
  "program_file ps =
     concat (map (\<lambda>p. [ucast (drop_bit 24 p), ucast (drop_bit 16 p), ucast (drop_bit 8 p),
                        ucast p]) ps)"

subsection \<open>Clocks\<close>

text \<open>
  An environment in which every reading of the clock during the iteration gives the time
  \<open>t\<close>, in nanoseconds, and every file operation succeeds.
\<close>

definition clock :: "int \<Rightarrow> env" where
  "clock t = quiet\<lparr>now1 := t, now2 := t, nowStamp := t, now3 := t\<rparr>"

section \<open>Properties\<close>

subsection \<open>Decoding\<close>

lemma mask_consts:
  "(0xf0000000::32 word) = push_bit 28 (mask 4)"
  "(0x1C0::32 word) = push_bit 6 (mask 3)"
  "(0x38::32 word) = push_bit 3 (mask 3)"
  "(0x7::32 word) = mask 3"
  "(0x0e000000::32 word) = push_bit 25 (mask 3)"
  "(0x01ffffff::32 word) = mask 25"
  by (simp_all add: mask_numeral)

lemma op_of_eq: "op_of i = push_bit 28 (drop_bit 28 i)"
  unfolding op_of_def mask_consts
  by (rule bit_word_eqI) (auto simp: bit_simps)

lemma regA_bits: "regA i = bits 6 3 i"
  unfolding regA_def bits_def mask_consts
  by (rule bit_word_eqI) (auto simp: bit_simps)

lemma regB_bits: "regB i = bits 3 3 i"
  unfolding regB_def bits_def mask_consts
  by (rule bit_word_eqI) (auto simp: bit_simps)

lemma regC_bits: "regC i = bits 0 3 i"
  unfolding regC_def bits_def mask_consts
  by (rule bit_word_eqI) (auto simp: bit_simps)

lemma regA13_bits: "regA13 i = bits 25 3 i"
  unfolding regA13_def bits_def mask_consts
  by (rule bit_word_eqI) (auto simp: bit_simps)


lemma unat_bits3: "unat (bits lo 3 i) < 8"
proof -
  have "unat (take_bit 3 (drop_bit lo i)) < 2 ^ 3"
    using take_bit_nat_less_exp[of 3 "unat (drop_bit lo i)"] by (simp add: unsigned_take_bit_eq)
  then show ?thesis by (simp add: bits_def)
qed

lemma drop_op_of: "drop_bit 28 (op_of i) = drop_bit 28 i"
  unfolding op_of_eq
  by (rule bit_word_eqI) (auto simp: bit_simps dest: bit_imp_le_length)

lemma op_of_iff:
  "drop_bit 28 (push_bit 28 k) = (k::32 word) \<Longrightarrow> op_of i = push_bit 28 k \<longleftrightarrow> drop_bit 28 i = k"
proof -
  assume k: "drop_bit 28 (push_bit 28 k) = k"
  show ?thesis
  proof
    assume "op_of i = push_bit 28 k"
    then have "drop_bit 28 (op_of i) = drop_bit 28 (push_bit 28 k)" by (rule arg_cong)
    then show "drop_bit 28 i = k" by (simp only: drop_op_of k)
  next
    assume "drop_bit 28 i = k"
    then show "op_of i = push_bit 28 k" by (simp only: op_of_eq)
  qed
qed

lemma opcode_lt: "opcode i < 16"
proof -
  have "unat i < 2 ^ 32" using unsigned_less[of i] by simp
  then show ?thesis by (simp add: opcode_def drop_bit_eq_div unat_div)
qed

lemma opcode_iff: "unat (k :: 32 word) = n \<Longrightarrow> opcode i = n \<longleftrightarrow> drop_bit 28 i = k"
  unfolding opcode_def using word_unat_eq_iff[of "drop_bit 28 i" k] by simp

lemma opcode_cases:
  "opcode i = 0 \<longleftrightarrow> drop_bit 28 i = 0"
  "opcode i = 1 \<longleftrightarrow> drop_bit 28 i = 1"
  "opcode i = 2 \<longleftrightarrow> drop_bit 28 i = 2"
  "opcode i = 3 \<longleftrightarrow> drop_bit 28 i = 3"
  "opcode i = 4 \<longleftrightarrow> drop_bit 28 i = 4"
  "opcode i = 5 \<longleftrightarrow> drop_bit 28 i = 5"
  "opcode i = 6 \<longleftrightarrow> drop_bit 28 i = 6"
  "opcode i = 7 \<longleftrightarrow> drop_bit 28 i = 7"
  "opcode i = 8 \<longleftrightarrow> drop_bit 28 i = 8"
  "opcode i = 9 \<longleftrightarrow> drop_bit 28 i = 9"
  "opcode i = 10 \<longleftrightarrow> drop_bit 28 i = 10"
  "opcode i = 11 \<longleftrightarrow> drop_bit 28 i = 11"
  "opcode i = 12 \<longleftrightarrow> drop_bit 28 i = 12"
  "opcode i = 13 \<longleftrightarrow> drop_bit 28 i = 13"
  by (rule opcode_iff, simp)+

lemma op_of_cases:
  "op_of i = 0 \<longleftrightarrow> opcode i = 0"
  "op_of i = 0x10000000 \<longleftrightarrow> opcode i = 1"
  "op_of i = 0x20000000 \<longleftrightarrow> opcode i = 2"
  "op_of i = 0x30000000 \<longleftrightarrow> opcode i = 3"
  "op_of i = 0x40000000 \<longleftrightarrow> opcode i = 4"
  "op_of i = 0x50000000 \<longleftrightarrow> opcode i = 5"
  "op_of i = 0x60000000 \<longleftrightarrow> opcode i = 6"
  "op_of i = 0x70000000 \<longleftrightarrow> opcode i = 7"
  "op_of i = 0x80000000 \<longleftrightarrow> opcode i = 8"
  "op_of i = 0x90000000 \<longleftrightarrow> opcode i = 9"
  "op_of i = 0xA0000000 \<longleftrightarrow> opcode i = 10"
  "op_of i = 0xB0000000 \<longleftrightarrow> opcode i = 11"
  "op_of i = 0xC0000000 \<longleftrightarrow> opcode i = 12"
  "op_of i = 0xD0000000 \<longleftrightarrow> opcode i = 13"
proof -
  show "op_of i = 0 \<longleftrightarrow> opcode i = 0"
    unfolding opcode_cases using op_of_iff[of 0 i] by simp
  show "op_of i = 0x10000000 \<longleftrightarrow> opcode i = 1"
    unfolding opcode_cases using op_of_iff[of 1 i] by simp
  show "op_of i = 0x20000000 \<longleftrightarrow> opcode i = 2"
    unfolding opcode_cases using op_of_iff[of 2 i] by simp
  show "op_of i = 0x30000000 \<longleftrightarrow> opcode i = 3"
    unfolding opcode_cases using op_of_iff[of 3 i] by simp
  show "op_of i = 0x40000000 \<longleftrightarrow> opcode i = 4"
    unfolding opcode_cases using op_of_iff[of 4 i] by simp
  show "op_of i = 0x50000000 \<longleftrightarrow> opcode i = 5"
    unfolding opcode_cases using op_of_iff[of 5 i] by simp
  show "op_of i = 0x60000000 \<longleftrightarrow> opcode i = 6"
    unfolding opcode_cases using op_of_iff[of 6 i] by simp
  show "op_of i = 0x70000000 \<longleftrightarrow> opcode i = 7"
    unfolding opcode_cases using op_of_iff[of 7 i] by simp
  show "op_of i = 0x80000000 \<longleftrightarrow> opcode i = 8"
    unfolding opcode_cases using op_of_iff[of 8 i] by simp
  show "op_of i = 0x90000000 \<longleftrightarrow> opcode i = 9"
    unfolding opcode_cases using op_of_iff[of 9 i] by simp
  show "op_of i = 0xA0000000 \<longleftrightarrow> opcode i = 10"
    unfolding opcode_cases using op_of_iff[of 10 i] by simp
  show "op_of i = 0xB0000000 \<longleftrightarrow> opcode i = 11"
    unfolding opcode_cases using op_of_iff[of 11 i] by simp
  show "op_of i = 0xC0000000 \<longleftrightarrow> opcode i = 12"
    unfolding opcode_cases using op_of_iff[of 12 i] by simp
  show "op_of i = 0xD0000000 \<longleftrightarrow> opcode i = 13"
    unfolding opcode_cases using op_of_iff[of 13 i] by simp
qed

text \<open>The switch of \<^verbatim>\<open>spin\<close>, by opcode number.\<close>

lemma dispatch_opcode:
  "dispatch e i um =
      (if opcode i = 0 then conditionalMove i um
      else if opcode i = 1 then arrayIndex i um
      else if opcode i = 2 then arrayAmendment i um
      else if opcode i = 3 then addition i um
      else if opcode i = 4 then multiplication i um
      else if opcode i = 5 then division i um
      else if opcode i = 6 then notAnd i um
      else if opcode i = 7 then Halt None um
      else if opcode i = 8 then allocation i um
      else if opcode i = 9 then abandonment i um
      else if opcode i = 10 then outputByte i um
      else if opcode i = 11 then inputByte e i um
      else if opcode i = 12 then loadProgram i um
      else if opcode i = 13 then orthography i um
      else Continue um)"
  by (simp only: dispatch_def Let_def op_of_cases)

subsection \<open>Registers\<close>

lemma unat_regs:
  "unat (regA i) < 8" "unat (regB i) < 8" "unat (regC i) < 8" "unat (regA13 i) < 8"
  by (simp_all add: regA_bits regB_bits regC_bits regA13_bits unat_bits3)

lemma Gpr_doBackup: "Gpr (doBackup e w um) = Gpr um"
  by (simp add: doBackup_def Let_def)

lemma Gpr_backup: "Gpr (backup e um) = Gpr um"
  by (simp add: backup_def Gpr_doBackup)

lemma fetch_running: "fetch (running f [p]) = Some p"
  by (simp add: fetch_def running_def)

subsection \<open>Opcode 11: input\<close>

lemma ucast_byte_neq: "(ucast (b :: byte) :: platter) \<noteq> 0xffffffff"
proof
  assume "(ucast b :: platter) = 0xffffffff"
  then have "unat (ucast b :: platter) = unat (0xffffffff :: platter)" by simp
  moreover have "unat b < 2 ^ LENGTH(8)" by (rule unsigned_less)
  then have "unat (ucast b :: platter) < 256"
    using take_bit_nat_eq_self[of "unat b" 32] by (simp add: unsigned_ucast_eq)
  ultimately show False by simp
qed

text \<open>
  What opcode 11 leaves in R[C], for every result of the read: \<open>0xFFFFFFFF\<close> whenever
  the read signals the end of input, whether or not it delivered a byte with it; else the
  byte, zero-extended, when it delivered one; else what R[C] held before.
\<close>

lemma input_register:
  assumes "length (Gpr um) = 8" and "fetch um = Some i" and "opcode i = 11"
  shows "\<exists>um'. state_of (spin_body e um) = Some um' \<and>
     reg um' (regC i) =
       (if rd_err e = Some EOF then 0xffffffff
        else if rd_count e = 1 then ucast (rd_byte e)
        else reg um (regC i))"
proof -
  have "spin_body e um = inputByte e i (um\<lparr>ExFinger := ExFinger um + 1\<rparr>)"
    using assms(2,3) by (simp add: spin_body_def dispatch_opcode)
  then show ?thesis
    using assms(1) unat_regs(3)[of i]
    by (auto simp: inputByte_def Let_def reg_def set_reg_def Gpr_backup split: option.splits)
qed

text \<open>
  Claim C1 does not hold of the code when the read delivers a byte together with the end
  of input (\<^verbatim>\<open>count == 1\<close> and \<^verbatim>\<open>err == io.EOF\<close>, which the contract of
  \<^verbatim>\<open>io.Reader\<close> allows for the last byte of a stream): the byte is stored in R[C]
  and then overwritten with \<open>0xFFFFFFFF\<close>, so the program never sees it. Here the
  program is the single instruction Input into register 0 and the read delivers
  \<open>0x41\<close> with \<^verbatim>\<open>io.EOF\<close>: afterwards R[0] is \<open>0xFFFFFFFF\<close>, not \<open>0x41\<close>.
\<close>

theorem input_byte_lost_at_eof:
  "fetch (running [] [0xB0000000]) = Some 0xB0000000 \<and> opcode 0xB0000000 = 11 \<and>
   rd_count (quiet\<lparr>rd_err := Some EOF\<rparr>) = 1 \<and>
   rd_byte (quiet\<lparr>rd_err := Some EOF\<rparr>) = 0x41 \<and>
   rd_err (quiet\<lparr>rd_err := Some EOF\<rparr>) = Some EOF \<and>
   spin_body (quiet\<lparr>rd_err := Some EOF\<rparr>) (running [] [0xB0000000])
     = Continue ((running [] [0xB0000000])\<lparr>Gpr := [0xffffffff, 0, 0, 0, 0, 0, 0, 0], ExFinger := 1\<rparr>) \<and>
   reg ((running [] [0xB0000000])\<lparr>Gpr := [0xffffffff, 0, 0, 0, 0, 0, 0, 0], ExFinger := 1\<rparr>)
       (regC 0xB0000000) = 0xffffffff \<and>
   reg ((running [] [0xB0000000])\<lparr>Gpr := [0xffffffff, 0, 0, 0, 0, 0, 0, 0], ExFinger := 1\<rparr>)
       (regC 0xB0000000)
     \<noteq> ucast (rd_byte (quiet\<lparr>rd_err := Some EOF\<rparr>))"
  by (simp add: spin_body_def dispatch_def op_of_def inputByte_def backup_def fetch_def
      running_def quiet_def opcode_def regC_def reg_def set_reg_def)

subsection \<open>The instruction format\<close>









subsection \<open>The register frame\<close>

lemma Gpr_set_reg: "Gpr (set_reg r v um) = (Gpr um)[unat r := v]"
  by (simp add: set_reg_def)

lemma Gpr_allocateHeapArray: "Gpr (snd (allocateHeapArray n um)) = Gpr um"
  by (simp add: allocateHeapArray_def make_def Let_def)

lemma Gpr_copy_slice: "Gpr (copy_slice d src um) = Gpr um"
  by (simp add: copy_slice_def split: option.splits)

lemma Gpr_loadProgram: "loadProgram i um = Continue um' \<Longrightarrow> Gpr um' = Gpr um"
  by (auto simp: loadProgram_def Let_def make_def Gpr_copy_slice split: if_splits)

lemma Gpr_inputByte:
  "state_of (inputByte e i um) = Some um' \<Longrightarrow>
     Gpr um' = Gpr um \<or> (\<exists>v. Gpr um' = (Gpr um)[unat (regC i) := v])"
  by (auto simp: inputByte_def Let_def Gpr_set_reg Gpr_backup split: option.splits if_splits)

lemma Gpr_standard:
  "state_of (conditionalMove i um) = Some um' \<Longrightarrow>
     Gpr um' = Gpr um \<or> (\<exists>v. Gpr um' = (Gpr um)[unat (regA i) := v])"
  "state_of (arrayIndex i um) = Some um' \<Longrightarrow> \<exists>v. Gpr um' = (Gpr um)[unat (regA i) := v]"
  "state_of (addition i um) = Some um' \<Longrightarrow> \<exists>v. Gpr um' = (Gpr um)[unat (regA i) := v]"
  "state_of (multiplication i um) = Some um' \<Longrightarrow> \<exists>v. Gpr um' = (Gpr um)[unat (regA i) := v]"
  "state_of (division i um) = Some um' \<Longrightarrow> \<exists>v. Gpr um' = (Gpr um)[unat (regA i) := v]"
  "state_of (notAnd i um) = Some um' \<Longrightarrow> \<exists>v. Gpr um' = (Gpr um)[unat (regA i) := v]"
  "state_of (orthography i um) = Some um' \<Longrightarrow> \<exists>v. Gpr um' = (Gpr um)[unat (regA13 i) := v]"
  "state_of (allocation i um) = Some um' \<Longrightarrow> \<exists>v. Gpr um' = (Gpr um)[unat (regB i) := v]"
  "state_of (arrayAmendment i um) = Some um' \<Longrightarrow> Gpr um' = Gpr um"
  "state_of (abandonment i um) = Some um' \<Longrightarrow> Gpr um' = Gpr um"
  "state_of (outputByte i um) = Some um' \<Longrightarrow> Gpr um' = Gpr um"
  "state_of (loadProgram i um) = Some um' \<Longrightarrow> Gpr um' = Gpr um"
         apply (auto simp: conditionalMove_def arrayIndex_def addition_def multiplication_def
      division_def notAnd_def orthography_def Gpr_set_reg Let_def split: if_splits)[7]
      apply (cases "allocateHeapArray (reg um (regC i)) um")
      apply (use Gpr_allocateHeapArray[of "reg um (regC i)" um] in
        \<open>auto simp: allocation_def Gpr_set_reg\<close>)[1]
     apply (auto simp: arrayAmendment_def abandonment_def outputByte_def
      split: option.splits if_splits)[3]
  apply (auto simp: loadProgram_def Let_def make_def Gpr_copy_slice split: if_splits)
  done

lemma Gpr_dispatch:
  assumes "state_of (dispatch e i um) = Some um'"
  shows "Gpr um' = Gpr um \<or> (\<exists>d v. destination i = Some d \<and> Gpr um' = (Gpr um)[d := v])"
proof -
  consider "opcode i \<in> {0, 1, 3, 4, 5, 6}" | "opcode i = 13" | "opcode i = 8" | "opcode i = 11"
    | "opcode i \<in> {2, 9, 10, 12}" | "opcode i = 7" | "opcode i \<in> {14, 15}"
    using opcode_lt[of i] by (auto simp: numeral_eq_Suc less_Suc_eq)
  then show ?thesis
  proof cases
    case 1
    then have "destination i = Some (unat (regA i))" by (simp add: destination_def regA_bits)
    then show ?thesis
      using 1 assms Gpr_standard(1-6)[of i um um'] by (auto simp: dispatch_opcode)
  next
    case 2
    then have "destination i = Some (unat (regA13 i))" by (simp add: destination_def regA13_bits)
    then show ?thesis
      using 2 assms Gpr_standard(7)[of i um um'] by (auto simp: dispatch_opcode)
  next
    case 3
    then have "destination i = Some (unat (regB i))" by (simp add: destination_def regB_bits)
    then show ?thesis
      using 3 assms Gpr_standard(8)[of i um um'] by (auto simp: dispatch_opcode)
  next
    case 4
    then have "destination i = Some (unat (regC i))" by (simp add: destination_def regC_bits)
    then show ?thesis
      using 4 assms Gpr_inputByte[of e i um um'] by (auto simp: dispatch_opcode)
  next
    case 5
    then show ?thesis
      using assms Gpr_standard(9-12)[of i um um'] by (auto simp: dispatch_opcode)
  next
    case 6
    then show ?thesis using assms by (simp add: dispatch_opcode)
  next
    case 7
    then show ?thesis using assms by (auto simp: dispatch_opcode)
  qed
qed

text \<open>
  Claim C9: an iteration that does not panic writes at most the register its instruction
  names as destination (A for the opcodes 0, 1, 3, 4, 5, 6 and 13, B for 8, C for 11):
  the register file keeps its length, every other register keeps its value, and the
  opcodes 2, 7, 9, 10 and 12, which name no destination, leave all registers as they were.
\<close>

theorem register_frame:
  assumes "fetch um = Some i" and "state_of (spin_body e um) = Some um'"
  shows "length (Gpr um') = length (Gpr um) \<and>
         (\<forall>r. Some r \<noteq> destination i \<longrightarrow> Gpr um' ! r = Gpr um ! r) \<and>
         (destination i = None \<longrightarrow> Gpr um' = Gpr um) \<and>
         (opcode i \<in> {2, 7, 9, 10, 12} \<longrightarrow> destination i = None)"
proof -
  have "state_of (dispatch e i (um\<lparr>ExFinger := ExFinger um + 1\<rparr>)) = Some um'"
    using assms by (simp add: spin_body_def)
  from Gpr_dispatch[OF this]
  have "Gpr um' = Gpr um \<or> (\<exists>d v. destination i = Some d \<and> Gpr um' = (Gpr um)[d := v])"
    by simp
  then show ?thesis by (auto simp: destination_def)
qed


theorem register_frame_witness:
  "fetch (running [] [0xD2000041]) = Some 0xD2000041 \<and>
   state_of (spin_body quiet (running [] [0xD2000041]))
     = Some ((running [] [0xD2000041])\<lparr>Gpr := [0, 0x41, 0, 0, 0, 0, 0, 0], ExFinger := 1\<rparr>) \<and>
   destination 0xD2000041 = Some 1 \<and>
   length [0, 0x41, 0, 0, 0, 0, 0, 0 :: platter] = length (Gpr (running [] [0xD2000041])) \<and>
   [0, 0x41, 0, 0, 0, 0, 0, 0] ! 0 = Gpr (running [] [0xD2000041]) ! 0 \<and>
   [0, 0x41, 0, 0, 0, 0, 0, 0] ! 7 = Gpr (running [] [0xD2000041]) ! 7"
proof -
  have f: "fetch (running [] [0xD2000041]) = Some 0xD2000041"
    by (rule fetch_running)
  have s: "state_of (spin_body quiet (running [] [0xD2000041]))
     = Some ((running [] [0xD2000041])\<lparr>Gpr := [0, 0x41, 0, 0, 0, 0, 0, 0], ExFinger := 1\<rparr>)"
    by (simp add: spin_body_def fetch_def dispatch_def op_of_def orthography_def set_reg_def
        regA13_def value13_def running_def)
  have d: "destination 0xD2000041 = Some 1"
    by (simp add: destination_def opcode_def bits_def)
  note r = register_frame[OF f s, simplified d, simplified]
  from r have "[0, 0x41, 0, 0, 0, 0, 0, 0] ! 0 = Gpr (running [] [0xD2000041]) ! 0"
    and "[0, 0x41, 0, 0, 0, 0, 0, 0] ! 7 = Gpr (running [] [0xD2000041]) ! 7"
    and "length [0, 0x41, 0, 0, 0, 0, 0, 0 :: platter] = length (Gpr (running [] [0xD2000041]))"
    by (simp_all add: running_def)
  then show ?thesis using f s d by simp
qed

subsection \<open>The next-identifier counter\<close>

lemma allocateHeapArray_eq:
  "allocateHeapArray len um =
     (NextHeap um,
      um\<lparr>arrays := arrays um @ [replicate (unat len) 0],
         Heap := (Heap um)(NextHeap um \<mapsto> length (arrays um)),
         NextHeap := NextHeap um + 1\<rparr>)"
  by (simp add: allocateHeapArray_def make_def Let_def)

lemma NextHeap_backup: "NextHeap (backup e um) = NextHeap um"
  by (simp add: backup_def doBackup_def Let_def)

lemma NextHeap_copy_slice: "NextHeap (copy_slice d src um) = NextHeap um"
  by (simp add: copy_slice_def split: option.splits)

lemma NextHeap_others:
  "state_of (conditionalMove i um) = Some um' \<Longrightarrow> NextHeap um' = NextHeap um"
  "state_of (arrayIndex i um) = Some um' \<Longrightarrow> NextHeap um' = NextHeap um"
  "state_of (arrayAmendment i um) = Some um' \<Longrightarrow> NextHeap um' = NextHeap um"
  "state_of (addition i um) = Some um' \<Longrightarrow> NextHeap um' = NextHeap um"
  "state_of (multiplication i um) = Some um' \<Longrightarrow> NextHeap um' = NextHeap um"
  "state_of (division i um) = Some um' \<Longrightarrow> NextHeap um' = NextHeap um"
  "state_of (notAnd i um) = Some um' \<Longrightarrow> NextHeap um' = NextHeap um"
  "state_of (abandonment i um) = Some um' \<Longrightarrow> NextHeap um' = NextHeap um"
  "state_of (outputByte i um) = Some um' \<Longrightarrow> NextHeap um' = NextHeap um"
  "state_of (inputByte e i um) = Some um' \<Longrightarrow> NextHeap um' = NextHeap um"
  "state_of (loadProgram i um) = Some um' \<Longrightarrow> NextHeap um' = NextHeap um"
  "state_of (orthography i um) = Some um' \<Longrightarrow> NextHeap um' = NextHeap um"
  by (auto simp: conditionalMove_def arrayIndex_def arrayAmendment_def addition_def
      multiplication_def division_def notAnd_def abandonment_def outputByte_def inputByte_def
      loadProgram_def orthography_def set_reg_def Let_def make_def NextHeap_backup
      NextHeap_copy_slice split: if_splits option.splits)

lemma allocation_eq:
  "allocation i um =
     Continue (set_reg (regB i) (NextHeap um) (snd (allocateHeapArray (reg um (regC i)) um)))"
  by (simp add: allocation_def allocateHeapArray_eq)

lemma NextHeap_dispatch:
  assumes "state_of (dispatch e i um) = Some um'"
  shows "NextHeap um' = (if opcode i = 8 then NextHeap um + 1 else NextHeap um)"
proof (cases "opcode i = 8")
  case True
  then show ?thesis
    using assms by (auto simp: dispatch_opcode allocation_eq allocateHeapArray_eq set_reg_def)
next
  case False
  then show ?thesis
    using assms NextHeap_others[where i=i and um=um and um'=um']
    by (auto simp: dispatch_opcode split: if_splits)
qed

lemma length_Gpr_dispatch:
  "state_of (dispatch e i um) = Some um' \<Longrightarrow> length (Gpr um') = length (Gpr um)"
  using Gpr_dispatch[of e i um um'] by auto

lemma allocation_id:
  assumes "length (Gpr um) = 8" "opcode i = 8" "state_of (dispatch e i um) = Some um'"
  shows "reg um' (regB i) = NextHeap um"
  using assms unat_regs(2)[of i]
  by (auto simp: dispatch_opcode allocation_eq allocateHeapArray_eq set_reg_def reg_def)

lemma spin_body_dispatch:
  "fetch um = Some i \<Longrightarrow> spin_body e um = dispatch e i (um\<lparr>ExFinger := ExFinger um + 1\<rparr>)"
  by (simp add: spin_body_def)

lemma allocations_consecutive:
  "length (Gpr um) = 8 \<Longrightarrow>
   allocations es um = map (\<lambda>k. NextHeap um + of_nat k) [0..<length (allocations es um)]"
proof (induction es arbitrary: um)
  case Nil
  show ?case by simp
next
  case (Cons e es)
  show ?case
  proof (cases "fetch um")
    case None
    then show ?thesis by simp
  next
    case (Some i)
    let ?um0 = "um\<lparr>ExFinger := ExFinger um + 1\<rparr>"
    have b: "spin_body e um = dispatch e i ?um0" using Some by (rule spin_body_dispatch)
    show ?thesis
    proof (cases "dispatch e i ?um0")
      case (Continue um1)
      then have s: "state_of (dispatch e i ?um0) = Some um1" by simp
      have l: "length (Gpr um1) = 8"
        using length_Gpr_dispatch[OF s] Cons.prems by simp
      note ih = Cons.IH[OF l]
      have n: "NextHeap um1 = (if opcode i = 8 then NextHeap um + 1 else NextHeap um)"
        using NextHeap_dispatch[OF s] by simp
      show ?thesis
      proof (cases "opcode i = 8")
        case True
        have r: "reg um1 (regB i) = NextHeap um"
          using allocation_id[OF _ True s] Cons.prems by simp
        have a: "allocations (e # es) um = NextHeap um # allocations es um1"
          using Some b Continue True r by simp
        have "map (\<lambda>k. NextHeap um + of_nat k) [0..<Suc (length (allocations es um1))]
            = NextHeap um # map (\<lambda>k. NextHeap um1 + of_nat k) [0..<length (allocations es um1)]"
          using n True by (simp add: upt_conv_Cons map_Suc_upt[symmetric] del: upt_Suc)
        then show ?thesis using a ih by simp
      next
        case False
        have a: "allocations (e # es) um = allocations es um1"
          using Some b Continue False by simp
        show ?thesis using a ih n False by simp
      qed
    next
      case (Halt x um1)
      then show ?thesis using Some b by simp
    next
      case (Panic p)
      then show ?thesis using Some b by simp
    qed
  qed
qed


lemma LoadProgram_New:
  "fst (LoadProgram p (New f)) = None \<Longrightarrow>
   Heap (snd (LoadProgram p (New f))) = [0 \<mapsto> 0] \<and> NextHeap (snd (LoadProgram p (New f))) = 1"
  by (auto simp: LoadProgram_def allocateHeapArray_eq copy_slice_def New_def Let_def
      split: reader.splits option.splits)

text \<open>
  Claim C10: \<^verbatim>\<open>allocateHeapArray\<close> returns the value the counter had and adds one to
  the counter, modulo \<open>2 ^ 32\<close>; an iteration changes the counter only when its opcode
  is 8, and then the identifier in R[B] is the value the counter had; so the identifiers
  that the allocations of a run hand out are consecutive from the counter's value at its
  start, whatever the program abandons in between; and a successful \<^verbatim>\<open>LoadProgram\<close>
  on a new machine installs its segment under identifier 0 and leaves the counter at 1.
\<close>

theorem allocation_counter:
  "fst (allocateHeapArray len um) = NextHeap um \<and>
   NextHeap (snd (allocateHeapArray len um)) = NextHeap um + 1 \<and>
   unat (NextHeap um + 1) = (unat (NextHeap um) + 1) mod 2 ^ 32 \<and>
   (fetch um = Some i \<and> state_of (spin_body e um) = Some um' \<longrightarrow>
      NextHeap um' = (if opcode i = 8 then NextHeap um + 1 else NextHeap um)) \<and>
   (length (Gpr um) = 8 \<and> fetch um = Some i \<and> opcode i = 8 \<and>
    state_of (spin_body e um) = Some um' \<longrightarrow> reg um' (regB i) = NextHeap um) \<and>
   (length (Gpr um) = 8 \<longrightarrow>
      allocations es um = map (\<lambda>k. NextHeap um + of_nat k) [0..<length (allocations es um)]) \<and>
   (fst (LoadProgram p (New f)) = None \<longrightarrow>
      Heap (snd (LoadProgram p (New f))) = [0 \<mapsto> 0] \<and>
      NextHeap (snd (LoadProgram p (New f))) = 1)"
proof -
  have a: "fetch um = Some i \<and> state_of (spin_body e um) = Some um' \<longrightarrow>
      NextHeap um' = (if opcode i = 8 then NextHeap um + 1 else NextHeap um)"
    using NextHeap_dispatch[of e i "um\<lparr>ExFinger := ExFinger um + 1\<rparr>" um']
    by (auto simp: spin_body_def)
  have b: "length (Gpr um) = 8 \<and> fetch um = Some i \<and> opcode i = 8 \<and>
    state_of (spin_body e um) = Some um' \<longrightarrow> reg um' (regB i) = NextHeap um"
    using allocation_id[of "um\<lparr>ExFinger := ExFinger um + 1\<rparr>" i e um']
    by (auto simp: spin_body_def)
  have c: "unat (NextHeap um + 1) = (unat (NextHeap um) + 1) mod 2 ^ 32"
    by (simp add: unat_word_ariths)
  show ?thesis
    using a b c allocations_consecutive[of um es] LoadProgram_New[of p f]
    by (simp add: allocateHeapArray_eq)
qed

lemma two_allocations:
  "allocations [quiet, quiet, quiet] (running [] [0x80000008, 0x90000001, 0x80000010, 0x70000000])
     = [1, 2]"
  by (simp add: spin_body_def fetch_def dispatch_def op_of_def opcode_def allocation_def
      abandonment_def allocateHeapArray_eq set_reg_def reg_def regA_def regB_def regC_def
      running_def Let_def)


theorem allocation_counter_witness:
  "length (Gpr (running [] [0x80000008, 0x90000001, 0x80000010, 0x70000000])) = 8 \<and>
   NextHeap (running [] [0x80000008, 0x90000001, 0x80000010, 0x70000000]) = 1 \<and>
   allocations [quiet, quiet, quiet] (running [] [0x80000008, 0x90000001, 0x80000010, 0x70000000])
     = [1, 2] \<and>
   fst (LoadProgram (Bytes [0x70, 0, 0, 0]) (New [])) = None \<and>
   Heap (snd (LoadProgram (Bytes [0x70, 0, 0, 0]) (New []))) = [0 \<mapsto> 0] \<and>
   NextHeap (snd (LoadProgram (Bytes [0x70, 0, 0, 0]) (New []))) = 1"
proof -
  let ?m = "running [] [0x80000008, 0x90000001, 0x80000010, 0x70000000]"
  have l: "length (Gpr ?m) = 8" "NextHeap ?m = 1"
    by (simp_all add: running_def)
  have p: "fst (LoadProgram (Bytes [0x70, 0, 0, 0]) (New [])) = None"
    by (simp add: LoadProgram_def binaryRead_def Let_def allocateHeapArray_eq)
  from allocation_counter[of 0 ?m "0x80000008" quiet ?m "[quiet, quiet, quiet]"
      "Bytes [0x70, 0, 0, 0]" "[]"]
  have "allocations [quiet, quiet, quiet] ?m
          = map (\<lambda>k. NextHeap ?m + of_nat k) [0..<length (allocations [quiet, quiet, quiet] ?m)]"
    and "Heap (snd (LoadProgram (Bytes [0x70, 0, 0, 0]) (New []))) = [0 \<mapsto> 0]"
    and "NextHeap (snd (LoadProgram (Bytes [0x70, 0, 0, 0]) (New []))) = 1"
    using l p by simp_all
  then show ?thesis using l p two_allocations by simp
qed

subsection \<open>Opcode 8: allocation\<close>

lemma run_append:
  "run (es @ fs) um = (case run es um of None \<Rightarrow> None | Some um1 \<Rightarrow> run fs um1)"
  by (induction es arbitrary: um) (auto split: outcome.splits)

lemma churned_0: "churned 0 = running [] churn"
  by (simp add: churned_def running_def)

lemma succ_neq_0:
  assumes "k < 2 ^ 32 - 1"
  shows "(1 + of_nat k :: platter) \<noteq> 0"
proof
  assume "(1 + of_nat k :: platter) = 0"
  then have "(of_nat (Suc k) :: platter) = 0" by simp
  then have "2 ^ LENGTH(32) dvd Suc k"
    by (simp only: word_of_nat_eq_0_iff)
  then have "2 ^ 32 dvd Suc k" by simp
  then have "2 ^ 32 \<le> Suc k" by (rule dvd_imp_le) simp
  with assms show False by simp
qed

lemma churn_round:
  assumes "k < 2 ^ 32 - 1"
  shows "run [quiet, quiet, quiet] (churned k) = Some (churned (Suc k))"
proof -
  have n: "(1 + of_nat k :: platter) \<noteq> 0" using assms by (rule succ_neq_0)
  have s1: "spin_body quiet (churned k)
      = Continue ((churned k)\<lparr>ExFinger := 1, arrays := churn # replicate k [] @ [[]],
          Heap := [0 \<mapsto> 0, 1 + of_nat k \<mapsto> Suc k], NextHeap := 2 + of_nat k,
          Gpr := [0, 1 + of_nat k, 0, 0, 0, 0, 0, 0]\<rparr>)"
    by (simp add: spin_body_def fetch_def churned_def churn_def dispatch_def op_of_def
        allocation_def allocateHeapArray_eq set_reg_def reg_def regB_def regC_def)
  have s2: "spin_body quiet ((churned k)\<lparr>ExFinger := 1, arrays := churn # replicate k [] @ [[]],
          Heap := [0 \<mapsto> 0, 1 + of_nat k \<mapsto> Suc k], NextHeap := 2 + of_nat k,
          Gpr := [0, 1 + of_nat k, 0, 0, 0, 0, 0, 0]\<rparr>)
      = Continue ((churned k)\<lparr>ExFinger := 2, arrays := churn # replicate k [] @ [[]],
          Heap := [0 \<mapsto> 0], NextHeap := 2 + of_nat k,
          Gpr := [0, 1 + of_nat k, 0, 0, 0, 0, 0, 0]\<rparr>)"
    using n
    by (simp add: spin_body_def fetch_def churned_def churn_def dispatch_def op_of_def
        abandonment_def reg_def regC_def fun_upd_twist)
  have s3: "spin_body quiet ((churned k)\<lparr>ExFinger := 2, arrays := churn # replicate k [] @ [[]],
          Heap := [0 \<mapsto> 0], NextHeap := 2 + of_nat k,
          Gpr := [0, 1 + of_nat k, 0, 0, 0, 0, 0, 0]\<rparr>)
      = Continue (churned (Suc k))"
    by (simp add: spin_body_def fetch_def churned_def churn_def dispatch_def op_of_def
        loadProgram_def reg_def regB_def regC_def Let_def replicate_append_same)
  show ?thesis by (simp add: s1 s2 s3)
qed

lemma churn_rounds:
  "k \<le> 2 ^ 32 - 1 \<Longrightarrow> run (replicate (3 * k) quiet) (running [] churn) = Some (churned k)"
proof (induction k)
  case 0
  show ?case by (simp add: churned_0)
next
  case (Suc k)
  have "3 * Suc k = 3 * k + Suc (Suc (Suc 0))" by simp
  then have "replicate (3 * Suc k) quiet = replicate (3 * k) quiet @ [quiet, quiet, quiet]"
    by (simp only: replicate_add replicate_Suc replicate_0)
  moreover have "run (replicate (3 * k) quiet) (running [] churn) = Some (churned k)"
    using Suc by simp
  moreover have "run [quiet, quiet, quiet] (churned k) = Some (churned (Suc k))"
    using Suc.prems by (intro churn_round) simp
  ultimately show ?case by (simp only: run_append option.case)
qed


text \<open>
  While the counter is not 0 and is not the identifier of a live segment (as it is until
  it wraps around), opcode 8 does what its comment in the source says: the identifier in
  R[B] is not 0 and was not live, the new segment has R[C] platters, all 0, and no other
  segment changes.
\<close>

lemma allocation_fresh:
  assumes "fetch um = Some i" and "opcode i = 8" and "length (Gpr um) = 8"
    and "NextHeap um \<noteq> 0" and "Heap um (NextHeap um) = None" and "valid_heap um"
  shows "\<exists>um'. spin_body e um = Continue um' \<and>
           reg um' (regB i) \<noteq> 0 \<and> Heap um (reg um' (regB i)) = None \<and>
           Heap um' (reg um' (regB i)) \<noteq> None \<and>
           segment um' (reg um' (regB i)) = replicate (unat (reg um (regC i))) 0 \<and>
           (\<forall>k. k \<noteq> reg um' (regB i) \<longrightarrow> Heap um' k = Heap um k \<and> segment um' k = segment um k)"
proof -
  have "\<And>k a. Heap um k = Some a \<Longrightarrow> a < length (arrays um)"
    using assms(6) by (auto simp: valid_heap_def)
  then show ?thesis
    using assms(1-5) unat_regs(2)[of i]
    by (auto simp: spin_body_def dispatch_opcode allocation_eq allocateHeapArray_eq set_reg_def
      reg_def segment_def deref_def nth_append split: option.splits)
qed


lemma word32_wrap: "(4294967296 :: platter) = 0"
  by simp

lemma spin_body_wrapped:
  "spin_body quiet (churned (2 ^ 32 - 1))
     = Continue ((churned (2 ^ 32 - 1))\<lparr>ExFinger := 1,
         arrays := (churn # replicate (2 ^ 32 - 1) []) @ [[]],
         Heap := [0 \<mapsto> 2 ^ 32], NextHeap := 1, Gpr := [0, 0, 0, 0, 0, 0, 0, 0]\<rparr>)"
  by (simp add: spin_body_def fetch_def churned_def churn_def dispatch_def op_of_def
      allocation_def allocateHeapArray_eq set_reg_def reg_def regB_def regC_def word32_wrap)

text \<open>
  Claim C3 does not hold of the code once the counter has wrapped around. After
  \<open>2 ^ 32 - 1\<close> rounds of the program \<open>churn\<close> on a loaded machine the counter is
  0 while segment 0, the program, is live; the next execution of opcode 8 places the
  identifier 0 in R[B] and binds it to the new, empty array, so the identifier is 0, it
  was live immediately before, and the program segment is lost from the heap.
\<close>

theorem allocation_after_wrap:
  "run (replicate (3 * (2 ^ 32 - 1)) quiet) (running [] churn) = Some (churned (2 ^ 32 - 1)) \<and>
   NextHeap (churned (2 ^ 32 - 1)) = 0 \<and>
   Heap (churned (2 ^ 32 - 1)) 0 = Some 0 \<and>
   segment (churned (2 ^ 32 - 1)) 0 = churn \<and>
   fetch (churned (2 ^ 32 - 1)) = Some 0x80000008 \<and> opcode 0x80000008 = 8 \<and>
   spin_body quiet (churned (2 ^ 32 - 1))
     = Continue ((churned (2 ^ 32 - 1))\<lparr>ExFinger := 1,
         arrays := (churn # replicate (2 ^ 32 - 1) []) @ [[]],
         Heap := [0 \<mapsto> 2 ^ 32], NextHeap := 1, Gpr := [0, 0, 0, 0, 0, 0, 0, 0]\<rparr>) \<and>
   reg ((churned (2 ^ 32 - 1))\<lparr>ExFinger := 1,
         arrays := (churn # replicate (2 ^ 32 - 1) []) @ [[]],
         Heap := [0 \<mapsto> 2 ^ 32], NextHeap := 1, Gpr := [0, 0, 0, 0, 0, 0, 0, 0]\<rparr>)
       (regB 0x80000008) = 0 \<and>
   segment ((churned (2 ^ 32 - 1))\<lparr>ExFinger := 1,
         arrays := (churn # replicate (2 ^ 32 - 1) []) @ [[]],
         Heap := [0 \<mapsto> 2 ^ 32], NextHeap := 1, Gpr := [0, 0, 0, 0, 0, 0, 0, 0]\<rparr>) 0 = []"
proof -
  have r: "run (replicate (3 * (2 ^ 32 - 1)) quiet) (running [] churn) = Some (churned (2 ^ 32 - 1))"
    by (rule churn_rounds) simp
  have a: "NextHeap (churned (2 ^ 32 - 1)) = 0" "Heap (churned (2 ^ 32 - 1)) 0 = Some 0"
    "segment (churned (2 ^ 32 - 1)) 0 = churn"
    "fetch (churned (2 ^ 32 - 1)) = Some 0x80000008" "opcode 0x80000008 = 8"
    by (simp_all add: churned_def segment_def deref_def fetch_def churn_def opcode_def
        word32_wrap)
  have l: "length (churn # replicate (2 ^ 32 - 1) ([] :: platter list)) = 2 ^ 32" by simp
  have b: "((churn # replicate (2 ^ 32 - 1) []) @ [[]]) ! (2 ^ 32) = ([] :: platter list)"
    using nth_append_length[of "churn # replicate (2 ^ 32 - 1) []" "[]" "[]"]
    by (simp only: l append_Nil2)
  have c: "segment ((churned (2 ^ 32 - 1))\<lparr>ExFinger := 1,
         arrays := (churn # replicate (2 ^ 32 - 1) []) @ [[]],
         Heap := [0 \<mapsto> 2 ^ 32], NextHeap := 1, Gpr := [0, 0, 0, 0, 0, 0, 0, 0]\<rparr>) 0 = []"
    using b by (simp add: segment_def deref_def)
  have d: "reg ((churned (2 ^ 32 - 1))\<lparr>ExFinger := 1,
         arrays := (churn # replicate (2 ^ 32 - 1) []) @ [[]],
         Heap := [0 \<mapsto> 2 ^ 32], NextHeap := 1, Gpr := [0, 0, 0, 0, 0, 0, 0, 0]\<rparr>)
       (regB 0x80000008) = 0"
    by (simp add: reg_def regB_def)
  show ?thesis
    by (simp only: r a c d spin_body_wrapped simp_thms)
qed

subsection \<open>Well-formed memory is kept\<close>

lemma valid_heap_New: "valid_heap (New f)"
  by (simp add: valid_heap_def New_def)

lemma valid_heap_fields:
  "Heap um' = Heap um \<Longrightarrow> length (arrays um') = length (arrays um) \<Longrightarrow>
   valid_heap um \<Longrightarrow> valid_heap um'"
  by (simp add: valid_heap_def)

lemma valid_heap_backup: "valid_heap (backup e um) = valid_heap um"
  by (simp add: valid_heap_def backup_def doBackup_def Let_def)

lemma valid_heap_set_reg: "valid_heap (set_reg r v um) = valid_heap um"
  by (simp add: valid_heap_def set_reg_def)

lemma valid_heap_allocateHeapArray:
  "valid_heap um \<Longrightarrow> valid_heap (snd (allocateHeapArray n um))"
  by (auto simp: valid_heap_def allocateHeapArray_eq less_Suc_eq)

lemma valid_heap_copy_slice: "valid_heap (copy_slice d src um) = valid_heap um"
  by (simp add: valid_heap_def copy_slice_def split: option.splits)

lemma valid_heap_dispatch:
  assumes "valid_heap um" and "state_of (dispatch e i um) = Some um'"
  shows "valid_heap um'"
proof -
  have lp: "state_of (loadProgram i um) = Some um' \<Longrightarrow> valid_heap um'"
    using assms(1)
    by (auto simp: loadProgram_def Let_def make_def copy_slice_def valid_heap_def less_Suc_eq
        split: if_splits)
  have al: "state_of (allocation i um) = Some um' \<Longrightarrow> valid_heap um'"
    using valid_heap_allocateHeapArray[OF assms(1), of "reg um (regC i)"]
    by (auto simp: allocation_eq valid_heap_set_reg)
  have ip: "state_of (inputByte e i um) = Some um' \<Longrightarrow> valid_heap um'"
    using assms(1)
    by (auto simp: inputByte_def Let_def valid_heap_set_reg valid_heap_backup
        split: option.splits if_splits)
  have ot: "state_of (conditionalMove i um) = Some um' \<Longrightarrow> valid_heap um'"
    "state_of (arrayIndex i um) = Some um' \<Longrightarrow> valid_heap um'"
    "state_of (arrayAmendment i um) = Some um' \<Longrightarrow> valid_heap um'"
    "state_of (addition i um) = Some um' \<Longrightarrow> valid_heap um'"
    "state_of (multiplication i um) = Some um' \<Longrightarrow> valid_heap um'"
    "state_of (division i um) = Some um' \<Longrightarrow> valid_heap um'"
    "state_of (notAnd i um) = Some um' \<Longrightarrow> valid_heap um'"
    "state_of (abandonment i um) = Some um' \<Longrightarrow> valid_heap um'"
    "state_of (outputByte i um) = Some um' \<Longrightarrow> valid_heap um'"
    "state_of (orthography i um) = Some um' \<Longrightarrow> valid_heap um'"
    using assms(1)
    by (auto simp: conditionalMove_def arrayIndex_def arrayAmendment_def addition_def
        multiplication_def division_def notAnd_def abandonment_def outputByte_def
        orthography_def Let_def set_reg_def valid_heap_def
        split: option.splits if_splits)
  show ?thesis
    using assms lp al ip ot
    by (auto simp: dispatch_opcode split: if_splits)
qed

lemma valid_heap_spin_body:
  assumes "valid_heap um" and "state_of (spin_body e um) = Some um'"
  shows "valid_heap um'"
proof (cases "fetch um")
  case None
  then show ?thesis using assms(2) by (simp add: spin_body_def)
next
  case (Some i)
  have "valid_heap (um\<lparr>ExFinger := ExFinger um + 1\<rparr>)"
    using assms(1) by (simp add: valid_heap_def)
  then show ?thesis
    using assms(2) Some valid_heap_dispatch by (simp add: spin_body_def)
qed

lemma valid_heap_LoadProgram:
  "valid_heap um \<Longrightarrow> valid_heap (snd (LoadProgram p um))"
  using valid_heap_allocateHeapArray[of um]
  by (auto simp: LoadProgram_def Let_def valid_heap_copy_slice allocateHeapArray_eq
      split: reader.splits option.splits prod.splits)


subsection \<open>Opcode 12: load program\<close>

lemma valid_heapD: "valid_heap um \<Longrightarrow> Heap um k = Some a \<Longrightarrow> a < length (arrays um)"
  by (auto simp: valid_heap_def)

lemma segment_make:
  assumes "valid_heap um"
  shows "segment (um\<lparr>arrays := arrays um @ [xs]\<rparr>) k = segment um k"
  using valid_heapD[OF assms, of k]
  by (auto simp: segment_def deref_def nth_append split: option.splits)

lemma loadProgram_copy:
  assumes "valid_heap um" and "reg um (regB i) \<noteq> 0"
  shows "loadProgram i um =
     Continue (um\<lparr>arrays := arrays um @ [segment um (reg um (regB i))],
                 Heap := (Heap um)(0 \<mapsto> length (arrays um)),
                 programHeap := Some (length (arrays um)),
                 ExFinger := uint (reg um (regC i))\<rparr>)"
  using assms(2) segment_make[OF assms(1)]
  by (simp add: loadProgram_def make_def copy_slice_def Let_def reg_def)

lemma loadProgram_jump:
  assumes "reg um (regB i) = 0"
  shows "loadProgram i um = Continue (um\<lparr>ExFinger := uint (reg um (regC i))\<rparr>)"
  using assms by (simp add: loadProgram_def Let_def)

lemma segment_amended:
  assumes "arrayAmendment j um = Continue um'" and "Heap um k \<noteq> Heap um (reg um (regA j))"
    and "valid_heap um"
  shows "segment um' k = segment um k"
  using assms valid_heapD[OF assms(3), of k]
  by (auto simp: arrayAmendment_def segment_def deref_def split: option.splits if_splits)


text \<open>
  Claim C4: executing opcode 12 never panics and sets the finger to the value of R[C].
  With R[B] = 0 neither the heap nor any array changes. With R[B] not 0, segment 0
  afterwards has the contents (so also the length) that segment R[B] had; every other
  identifier, R[B] among them, keeps its slice and its contents, so segment R[B] remains
  live; the slice of segment 0 is a new array that the loop's cached program slice now
  refers to and no other identifier does, before or after; and so a later amendment of
  another segment does not change segment 0, nor one of segment 0 any other segment.
\<close>

theorem load_program:
  assumes "valid_heap um" and "fetch um = Some i" and "opcode i = 12"
  shows "\<exists>um'. spin_body e um = Continue um' \<and>
     ExFinger um' = uint (reg um (regC i)) \<and>
     (reg um (regB i) = 0 \<longrightarrow> Heap um' = Heap um \<and> arrays um' = arrays um) \<and>
     (reg um (regB i) \<noteq> 0 \<longrightarrow>
        segment um' 0 = segment um (reg um (regB i)) \<and>
        (\<forall>k. k \<noteq> 0 \<longrightarrow> Heap um' k = Heap um k \<and> segment um' k = segment um k) \<and>
        (\<exists>a. Heap um' 0 = Some a \<and> programHeap um' = Some a \<and>
             (\<forall>k. Heap um k \<noteq> Some a) \<and> (\<forall>k. k \<noteq> 0 \<longrightarrow> Heap um' k \<noteq> Some a)) \<and>
        (\<forall>j um''. arrayAmendment j um' = Continue um'' \<longrightarrow>
           (reg um' (regA j) \<noteq> 0 \<longrightarrow> segment um'' 0 = segment um' 0) \<and>
           (reg um' (regA j) = 0 \<longrightarrow> (\<forall>k. k \<noteq> 0 \<longrightarrow> segment um'' k = segment um' k))))"
proof -
  let ?um0 = "um\<lparr>ExFinger := ExFinger um + 1\<rparr>"
  have v0: "valid_heap ?um0" using assms(1) by (simp add: valid_heap_def)
  have b: "spin_body e um = loadProgram i ?um0"
    using assms(2,3) by (simp add: spin_body_def dispatch_opcode)
  have r: "reg ?um0 = reg um" by (simp add: reg_def fun_eq_iff)
  have sg: "segment ?um0 = segment um"
    by (auto simp: segment_def deref_def fun_eq_iff split: option.splits)
  show ?thesis
  proof (cases "reg um (regB i) = 0")
    case True
    then show ?thesis
      using loadProgram_jump[of ?um0 i] by (simp add: b r)
  next
    case False
    let ?a = "length (arrays um)"
    let ?um' = "?um0\<lparr>arrays := arrays um @ [segment um (reg um (regB i))],
                 Heap := (Heap um)(0 \<mapsto> ?a),
                 programHeap := Some ?a,
                 ExFinger := uint (reg um (regC i))\<rparr>"
    have l: "spin_body e um = Continue ?um'"
      using loadProgram_copy[OF v0, of i] False by (simp add: b r sg)
    have fresh: "\<And>k. Heap um k \<noteq> Some ?a"
      using valid_heapD[OF assms(1)] by fastforce
    have v': "valid_heap ?um'"
      using valid_heapD[OF assms(1)] by (auto simp: valid_heap_def less_Suc_eq)
    have s0: "segment ?um' 0 = segment um (reg um (regB i))"
      by (simp add: segment_def deref_def)
    have sk: "\<And>k. k \<noteq> 0 \<Longrightarrow> Heap ?um' k = Heap um k \<and> segment ?um' k = segment um k"
      using valid_heapD[OF assms(1)]
      by (auto simp: segment_def deref_def nth_append split: option.splits)
    have h: "\<And>k. k \<noteq> 0 \<Longrightarrow> Heap ?um' k \<noteq> Some ?a" using fresh by simp
    have h0: "Heap ?um' 0 = Some ?a" by simp
    have am: "\<And>j um''. arrayAmendment j ?um' = Continue um'' \<Longrightarrow>
           (reg ?um' (regA j) \<noteq> 0 \<longrightarrow> segment um'' 0 = segment ?um' 0) \<and>
           (reg ?um' (regA j) = 0 \<longrightarrow> (\<forall>k. k \<noteq> 0 \<longrightarrow> segment um'' k = segment ?um' k))"
    proof -
      fix j um''
      define um1 where "um1 = ?um'"
      assume "arrayAmendment j ?um' = Continue um''"
      then have a: "arrayAmendment j um1 = Continue um''" by (simp only: um1_def)
      have v1: "valid_heap um1" using v' by (simp only: um1_def)
      have h1: "\<And>k. k \<noteq> 0 \<Longrightarrow> Heap um1 k \<noteq> Some ?a" using h by (simp only: um1_def)
      have h2: "Heap um1 0 = Some ?a" using h0 by (simp only: um1_def)
      have "reg um1 (regA j) \<noteq> 0 \<Longrightarrow> Heap um1 0 \<noteq> Heap um1 (reg um1 (regA j))"
        using h1 h2 by metis
      moreover have "\<And>k. k \<noteq> 0 \<Longrightarrow> reg um1 (regA j) = 0 \<Longrightarrow>
          Heap um1 k \<noteq> Heap um1 (reg um1 (regA j))"
        using h1 h2 by metis
      ultimately have "(reg um1 (regA j) \<noteq> 0 \<longrightarrow> segment um'' 0 = segment um1 0) \<and>
           (reg um1 (regA j) = 0 \<longrightarrow> (\<forall>k. k \<noteq> 0 \<longrightarrow> segment um'' k = segment um1 k))"
        using segment_amended[OF a _ v1] by blast
      then show "(reg ?um' (regA j) \<noteq> 0 \<longrightarrow> segment um'' 0 = segment ?um' 0) \<and>
           (reg ?um' (regA j) = 0 \<longrightarrow> (\<forall>k. k \<noteq> 0 \<longrightarrow> segment um'' k = segment ?um' k))"
        by (simp only: um1_def)
    qed
    show ?thesis
      apply (rule exI[of _ ?um'])
      apply (intro conjI)
         apply (rule l)
        apply simp
       apply (simp add: False)
      apply (intro impI conjI allI)
         apply (rule s0)
      using sk apply blast
      using sk apply blast
       apply (rule exI[of _ ?a])
      using fresh apply simp
      using am apply blast
      using am apply blast
      done
  qed
qed


theorem load_program_witness:
  "valid_heap replacing \<and> fetch replacing = Some 0xC0000008 \<and> opcode 0xC0000008 = 12 \<and>
   reg replacing (regB 0xC0000008) = 1 \<and> segment replacing 1 = [0x70000000] \<and>
   (\<exists>um'. spin_body quiet replacing = Continue um' \<and> ExFinger um' = 0 \<and>
      segment um' 0 = [0x70000000] \<and> Heap um' 1 = Some 1 \<and> segment um' 1 = [0x70000000] \<and>
      Heap um' 0 \<noteq> Heap um' 1)"
proof -
  have v: "valid_heap replacing"
    by (auto simp: valid_heap_def replacing_def split: if_splits)
  have f: "fetch replacing = Some 0xC0000008" "opcode 0xC0000008 = 12"
    by (simp_all add: fetch_def replacing_def opcode_def)
  have r: "reg replacing (regB 0xC0000008) = 1" "reg replacing (regC 0xC0000008) = 0"
    "segment replacing 1 = [0x70000000]" "Heap replacing 1 = Some 1"
    by (simp_all add: reg_def regB_def regC_def segment_def deref_def replacing_def)
  have nz: "reg replacing (regB 0xC0000008) \<noteq> 0" by (simp add: r)
  from load_program[OF v f, of quiet] obtain um' where
    u: "spin_body quiet replacing = Continue um'"
      "ExFinger um' = uint (reg replacing (regC 0xC0000008))"
    and rest: "reg replacing (regB 0xC0000008) \<noteq> 0 \<longrightarrow>
        segment um' 0 = segment replacing (reg replacing (regB 0xC0000008)) \<and>
        (\<forall>k. k \<noteq> 0 \<longrightarrow> Heap um' k = Heap replacing k \<and> segment um' k = segment replacing k) \<and>
        (\<exists>a. Heap um' 0 = Some a \<and> programHeap um' = Some a \<and>
             (\<forall>k. Heap replacing k \<noteq> Some a) \<and> (\<forall>k. k \<noteq> 0 \<longrightarrow> Heap um' k \<noteq> Some a)) \<and>
        (\<forall>j um''. arrayAmendment j um' = Continue um'' \<longrightarrow>
           (reg um' (regA j) \<noteq> 0 \<longrightarrow> segment um'' 0 = segment um' 0) \<and>
           (reg um' (regA j) = 0 \<longrightarrow> (\<forall>k. k \<noteq> 0 \<longrightarrow> segment um'' k = segment um' k)))"
    by blast
  from rest nz have s0: "segment um' 0 = segment replacing (reg replacing (regB 0xC0000008))"
    and sk: "\<forall>k. k \<noteq> 0 \<longrightarrow> Heap um' k = Heap replacing k \<and> segment um' k = segment replacing k"
    and ex: "\<exists>a. Heap um' 0 = Some a \<and> (\<forall>k. k \<noteq> 0 \<longrightarrow> Heap um' k \<noteq> Some a)"
    by blast+
  from sk have k1: "Heap um' 1 = Heap replacing 1 \<and> segment um' 1 = segment replacing 1"
    by simp
  from ex have d: "Heap um' 0 \<noteq> Heap um' 1"
    by (metis zero_neq_one)
  have "ExFinger um' = 0" "segment um' 0 = [0x70000000]" "Heap um' 1 = Some 1"
    "segment um' 1 = [0x70000000]"
    using u(2) s0 k1 by (simp_all add: r)
  with u(1) d have "\<exists>um'. spin_body quiet replacing = Continue um' \<and> ExFinger um' = 0 \<and>
      segment um' 0 = [0x70000000] \<and> Heap um' 1 = Some 1 \<and> segment um' 1 = [0x70000000] \<and>
      Heap um' 0 \<noteq> Heap um' 1"
    by blast
  then show ?thesis using v f r by simp
qed

subsection \<open>Loading a program\<close>

lemma Uint32_value:
  "Uint32 [b0, b1, b2, b3]
     = of_nat (unat b0 * 2 ^ 24 + unat b1 * 2 ^ 16 + unat b2 * 2 ^ 8 + unat b3)"
proof -
  let ?x0 = "ucast b0 :: platter" and ?x1 = "ucast b1 :: platter"
  and ?x2 = "ucast b2 :: platter" and ?x3 = "ucast b3 :: platter"
  have d1: "?x3 AND push_bit 8 ?x2 = 0"
    by (rule bit_word_eqI) (auto simp: bit_simps dest: bit_imp_le_length)
  have d2: "(?x3 OR push_bit 8 ?x2) AND push_bit 16 ?x1 = 0"
    by (rule bit_word_eqI) (auto simp: bit_simps dest: bit_imp_le_length)
  have d3: "((?x3 OR push_bit 8 ?x2) OR push_bit 16 ?x1) AND push_bit 24 ?x0 = 0"
    by (rule bit_word_eqI) (auto simp: bit_simps dest: bit_imp_le_length)
  have "Uint32 [b0, b1, b2, b3] = ((?x3 OR push_bit 8 ?x2) OR push_bit 16 ?x1) OR push_bit 24 ?x0"
    by (simp add: Uint32_def or.assoc)
  also have "\<dots> = ((?x3 OR push_bit 8 ?x2) OR push_bit 16 ?x1) + push_bit 24 ?x0"
    by (simp only: disjunctive_add_eq_or[OF d3])
  also have "\<dots> = ((?x3 OR push_bit 8 ?x2) + push_bit 16 ?x1) + push_bit 24 ?x0"
    by (simp only: disjunctive_add_eq_or[OF d2])
  also have "\<dots> = ((?x3 + push_bit 8 ?x2) + push_bit 16 ?x1) + push_bit 24 ?x0"
    by (simp only: disjunctive_add_eq_or[OF d1])
  also have "\<dots> = of_nat (unat b0 * 2 ^ 24 + unat b1 * 2 ^ 16 + unat b2 * 2 ^ 8 + unat b3)"
    by (simp add: push_bit_eq_mult)
  finally show ?thesis .
qed


lemma decode_platters_eq:
  "length bs = 4 * n \<Longrightarrow> decode_platters n bs = platters bs"
proof (induction n arbitrary: bs)
  case 0
  then show ?case by simp
next
  case (Suc n)
  from Suc.prems obtain b0 bs1 where 1: "bs = b0 # bs1" "length bs1 = 4 * n + 3"
    by (cases bs) auto
  then obtain b1 bs2 where 2: "bs1 = b1 # bs2" "length bs2 = 4 * n + 2"
    by (cases bs1) auto
  then obtain b2 bs3 where 3: "bs2 = b2 # bs3" "length bs3 = 4 * n + 1"
    by (cases bs2) auto
  then obtain b3 rest where 4: "bs3 = b3 # rest" "length rest = 4 * n"
    by (cases bs3) auto
  show ?case
    using Suc.IH[OF 4(2)] by (simp add: 1 2 3 4 Uint32_value)
qed

lemma length_decode_platters: "length (decode_platters n bs) = n"
  by (induction n arbitrary: bs) auto

lemma length_platters: "length (platters bs) = length bs div 4"
  by (induction bs rule: platters.induct) auto

lemma binaryRead_rounded:
  "binaryRead ((length bs + 3) div 4) bs
     = (if length bs mod 4 = 0 then Some (platters bs) else None)"
proof (cases "length bs mod 4 = 0")
  case True
  then have "length bs = 4 * ((length bs + 3) div 4)" by presburger
  then show ?thesis
    using True decode_platters_eq[of bs "(length bs + 3) div 4"] by (simp add: binaryRead_def)
next
  case False
  then have "length bs < 4 * ((length bs + 3) div 4)" by presburger
  then show ?thesis using False by (simp add: binaryRead_def)
qed

lemma LoadProgram_Bytes:
  "LoadProgram (Bytes bs) um =
     (if length bs mod 4 = 0
      then (None,
            um\<lparr>arrays := arrays um @
                   [take (unat (of_nat (length bs div 4) :: platter)) (platters bs) @
                    drop (length bs div 4) (replicate (unat (of_nat (length bs div 4) :: platter)) 0)],
               Heap := (Heap um)(NextHeap um \<mapsto> length (arrays um)),
               NextHeap := NextHeap um + 1\<rparr>)
      else (Some ErrConverting, um))"
  by (simp add: LoadProgram_def binaryRead_rounded allocateHeapArray_eq copy_slice_def
      length_platters)


lemma Uint32_bytes:
  "Uint32 [ucast (drop_bit 24 p), ucast (drop_bit 16 p), ucast (drop_bit 8 p), ucast p] = p"
proof (rule bit_word_eqI)
  fix n
  assume "n < LENGTH(32)"
  then consider "n < 8" | "8 \<le> n" "n < 16" | "16 \<le> n" "n < 24" | "24 \<le> n" "n < 32"
    by fastforce
  then show "bit (Uint32 [ucast (drop_bit 24 p), ucast (drop_bit 16 p), ucast (drop_bit 8 p),
      ucast p]) n = bit p n"
    by cases (auto simp: Uint32_def bit_simps)
qed

lemma platters_program_file: "platters (program_file ps) = ps"
proof (induction ps)
  case Nil
  show ?case by (simp add: program_file_def)
next
  case (Cons p ps)
  have "program_file (p # ps)
      = ucast (drop_bit 24 p) # ucast (drop_bit 16 p) # ucast (drop_bit 8 p) # ucast p
          # program_file ps"
    by (simp add: program_file_def)
  then show ?case
    using Cons Uint32_value[of "ucast (drop_bit 24 p)" "ucast (drop_bit 16 p)"
        "ucast (drop_bit 8 p)" "ucast p"]
    by (simp add: Uint32_bytes)
qed

lemma length_program_file: "length (program_file ps) = 4 * length ps"
  by (induction ps) (simp_all add: program_file_def)

lemma unat_of_nat_small: "n < 2 ^ 32 \<Longrightarrow> unat (of_nat n :: platter) = n"
  by (simp add: unat_of_nat take_bit_nat_eq_self)

lemma LoadProgram_small:
  assumes "length bs mod 4 = 0" and "length bs div 4 < 2 ^ 32"
  shows "LoadProgram (Bytes bs) (New f)
     = (None, (New f)\<lparr>arrays := [platters bs], Heap := [0 \<mapsto> 0], NextHeap := 1\<rparr>)"
  using assms unat_of_nat_small[OF assms(2)]
  by (simp add: LoadProgram_Bytes New_def length_platters)


text \<open>
  Claim C7: whenever \<^verbatim>\<open>LoadProgram\<close> returns an error, the machine is the one it was
  given, in every field; and it returns an error exactly when reading the stream fails or
  the number of bytes read is not a multiple of 4.
\<close>

theorem load_program_failure:
  "(fst (LoadProgram p um) \<noteq> None \<longrightarrow> snd (LoadProgram p um) = um) \<and>
   fst (LoadProgram (Broken bs) um) = Some ErrReading \<and>
   (fst (LoadProgram (Bytes bs) um) \<noteq> None \<longleftrightarrow> length bs mod 4 \<noteq> 0)"
proof -
  have "fst (LoadProgram p um) \<noteq> None \<longrightarrow> snd (LoadProgram p um) = um"
    by (cases p) (simp_all add: LoadProgram_Bytes, simp add: LoadProgram_def)
  moreover have "fst (LoadProgram (Broken bs) um) = Some ErrReading"
    by (simp add: LoadProgram_def)
  moreover have "fst (LoadProgram (Bytes bs) um) \<noteq> None \<longleftrightarrow> length bs mod 4 \<noteq> 0"
    by (simp add: LoadProgram_Bytes)
  ultimately show ?thesis by blast
qed

theorem load_program_failure_witness:
  "fst (LoadProgram (Bytes [0x70, 0, 0]) (running [] [0x70000000])) = Some ErrConverting \<and>
   snd (LoadProgram (Bytes [0x70, 0, 0]) (running [] [0x70000000])) = running [] [0x70000000] \<and>
   length [0x70, 0, 0 :: byte] mod 4 = 3 \<and>
   fst (LoadProgram (Broken [0x70]) (New [])) = Some ErrReading \<and>
   snd (LoadProgram (Broken [0x70]) (New [])) = New []"
proof -
  have a: "fst (LoadProgram (Bytes [0x70, 0, 0]) (running [] [0x70000000])) = Some ErrConverting"
    by (simp add: LoadProgram_def binaryRead_def)
  have b: "fst (LoadProgram (Broken [0x70]) (New [])) = Some ErrReading"
    by (simp add: LoadProgram_def)
  show ?thesis
    using load_program_failure[of "Bytes [0x70, 0, 0]" "running [] [0x70000000]" "[]"]
      load_program_failure[of "Broken [0x70]" "New []" "[]"] a b
    by simp
qed

text \<open>
  Claim C6 does not hold of the code for a stream of \<open>2 ^ 34\<close> bytes or more. The
  length of the new array is the number of platters converted to a platter, which keeps
  its low 32 bits: for \<open>2 ^ 34\<close> zero bytes, a multiple of 4, \<^verbatim>\<open>LoadProgram\<close>
  succeeds, the stream holds \<open>2 ^ 32\<close> platters, and segment 0 is empty.
\<close>

theorem load_program_oversized:
  "length (replicate (2 ^ 34) (0 :: byte)) mod 4 = 0 \<and>
   fst (LoadProgram (Bytes (replicate (2 ^ 34) 0)) (New [])) = None \<and>
   segment (snd (LoadProgram (Bytes (replicate (2 ^ 34) 0)) (New []))) 0 = [] \<and>
   length (platters (replicate (2 ^ 34) 0)) = 2 ^ 32 \<and>
   segment (snd (LoadProgram (Bytes (replicate (2 ^ 34) 0)) (New []))) 0
     \<noteq> platters (replicate (2 ^ 34) 0)"
proof -
  have l: "length (platters (replicate (2 ^ 34) 0)) = 2 ^ 32"
    by (simp add: length_platters)
  have s: "segment (snd (LoadProgram (Bytes (replicate (2 ^ 34) 0)) (New []))) 0 = []"
    by (simp add: LoadProgram_Bytes New_def segment_def deref_def word32_wrap)
  have "platters (replicate (2 ^ 34) 0) \<noteq> []"
    using l by auto
  then show ?thesis using l s by (simp add: LoadProgram_Bytes)
qed

text \<open>
  For fewer than \<open>2 ^ 32\<close> platters \<^verbatim>\<open>LoadProgram\<close> on a new machine does what
  claim C6 says: segment 0 is the sequence of the big-endian platters of the stream, so
  loading the file of a program yields the program; the counter is 1 and the finger 0.
\<close>

lemma load_program_installs:
  "(length bs mod 4 = 0 \<and> length bs div 4 < 2 ^ 32 \<longrightarrow>
      fst (LoadProgram (Bytes bs) (New f)) = None \<and>
      segment (snd (LoadProgram (Bytes bs) (New f))) 0 = platters bs \<and>
      length (platters bs) = length bs div 4 \<and>
      Heap (snd (LoadProgram (Bytes bs) (New f))) = [0 \<mapsto> 0] \<and>
      NextHeap (snd (LoadProgram (Bytes bs) (New f))) = 1 \<and>
      ExFinger (snd (LoadProgram (Bytes bs) (New f))) = 0) \<and>
   (length ps < 2 ^ 32 \<longrightarrow>
      fst (LoadProgram (Bytes (program_file ps)) (New f)) = None \<and>
      segment (snd (LoadProgram (Bytes (program_file ps)) (New f))) 0 = ps)"
proof -
  have a: "length bs mod 4 = 0 \<and> length bs div 4 < 2 ^ 32 \<longrightarrow>
      fst (LoadProgram (Bytes bs) (New f)) = None \<and>
      segment (snd (LoadProgram (Bytes bs) (New f))) 0 = platters bs \<and>
      length (platters bs) = length bs div 4 \<and>
      Heap (snd (LoadProgram (Bytes bs) (New f))) = [0 \<mapsto> 0] \<and>
      NextHeap (snd (LoadProgram (Bytes bs) (New f))) = 1 \<and>
      ExFinger (snd (LoadProgram (Bytes bs) (New f))) = 0"
    using LoadProgram_small[of bs f]
    by (auto simp: segment_def deref_def New_def length_platters)
  have b: "length ps < 2 ^ 32 \<longrightarrow>
      fst (LoadProgram (Bytes (program_file ps)) (New f)) = None \<and>
      segment (snd (LoadProgram (Bytes (program_file ps)) (New f))) 0 = ps"
    using LoadProgram_small[of "program_file ps" f]
    by (auto simp: segment_def deref_def length_program_file platters_program_file)
  show ?thesis using a b by blast
qed

lemma load_program_installs_example:
  "length [0xD0, 0, 0, 0x41, 0x70, 0, 0, 0 :: byte] mod 4 = 0 \<and>
   length [0xD0, 0, 0, 0x41, 0x70, 0, 0, 0 :: byte] div 4 < 2 ^ 32 \<and>
   fst (LoadProgram (Bytes [0xD0, 0, 0, 0x41, 0x70, 0, 0, 0]) (New [])) = None \<and>
   segment (snd (LoadProgram (Bytes [0xD0, 0, 0, 0x41, 0x70, 0, 0, 0]) (New []))) 0
     = [0xD0000041, 0x70000000] \<and>
   NextHeap (snd (LoadProgram (Bytes [0xD0, 0, 0, 0x41, 0x70, 0, 0, 0]) (New []))) = 1 \<and>
   ExFinger (snd (LoadProgram (Bytes [0xD0, 0, 0, 0x41, 0x70, 0, 0, 0]) (New []))) = 0 \<and>
   program_file [0xD0000041, 0x70000000] = [0xD0, 0, 0, 0x41, 0x70, 0, 0, 0]"
proof -
  have p: "platters [0xD0, 0, 0, 0x41, 0x70, 0, 0, 0] = [0xD0000041, 0x70000000]"
    by simp
  have q: "program_file [0xD0000041, 0x70000000] = [0xD0, 0, 0, 0x41, 0x70, 0, 0, 0]"
    by (simp add: program_file_def)
  show ?thesis
    using load_program_installs[of "[0xD0, 0, 0, 0x41, 0x70, 0, 0, 0]" "[]" "[]"] p q
    by simp
qed

subsection \<open>Snapshots\<close>

lemma decodeMap_fields:
  "Gpr (decodeMap es m) = Gpr m \<and> NextHeap (decodeMap es m) = NextHeap m \<and>
   ExFinger (decodeMap es m) = ExFinger m \<and> backupFolder (decodeMap es m) = backupFolder m \<and>
   lastBackup (decodeMap es m) = lastBackup m \<and> consoleOut (decodeMap es m) = consoleOut m"
  by (induction es m rule: decodeMap.induct) auto

lemma decodeMap_segments:
  "valid_heap m \<Longrightarrow>
   valid_heap (decodeMap es m) \<and>
   (\<forall>k. k \<notin> fst ` set es \<longrightarrow>
        Heap (decodeMap es m) k = Heap m k \<and> segment (decodeMap es m) k = segment m k) \<and>
   (\<forall>k. k \<in> fst ` set es \<longrightarrow>
        Heap (decodeMap es m) k \<noteq> None \<and>
        (\<exists>xs. (k, xs) \<in> set es \<and> segment (decodeMap es m) k = xs))"
proof (induction es m rule: decodeMap.induct)
  case (1 um)
  then show ?case by simp
next
  case (2 k xs es um)
  let ?m1 = "um\<lparr>Heap := (Heap um)(k \<mapsto> length (arrays um)), arrays := arrays um @ [xs]\<rparr>"
  have v1: "valid_heap ?m1"
    using "2.prems" by (auto simp: valid_heap_def less_Suc_eq)
  have sk: "segment ?m1 k = xs" by (simp add: segment_def deref_def)
  have so: "\<And>k'. k' \<noteq> k \<Longrightarrow> Heap ?m1 k' = Heap um k' \<and> segment ?m1 k' = segment um k'"
    using valid_heapD[OF "2.prems"]
    by (auto simp: segment_def deref_def nth_append split: option.splits)
  have hk: "Heap ?m1 k \<noteq> None" by simp
  note ih = "2.IH"[OF v1]
  have a: "valid_heap (decodeMap ((k, xs) # es) um)" using ih by simp
  have b: "\<forall>k'. k' \<notin> fst ` set ((k, xs) # es) \<longrightarrow>
        Heap (decodeMap ((k, xs) # es) um) k' = Heap um k' \<and>
        segment (decodeMap ((k, xs) # es) um) k' = segment um k'"
    using ih so by auto
  have c: "\<forall>k'. k' \<in> fst ` set ((k, xs) # es) \<longrightarrow>
        Heap (decodeMap ((k, xs) # es) um) k' \<noteq> None \<and>
        (\<exists>ys. (k', ys) \<in> set ((k, xs) # es) \<and> segment (decodeMap ((k, xs) # es) um) k' = ys)"
  proof (intro allI impI)
    fix k'
    assume m: "k' \<in> fst ` set ((k, xs) # es)"
    show "Heap (decodeMap ((k, xs) # es) um) k' \<noteq> None \<and>
        (\<exists>ys. (k', ys) \<in> set ((k, xs) # es) \<and> segment (decodeMap ((k, xs) # es) um) k' = ys)"
    proof (cases "k' \<in> fst ` set es")
      case True
      then show ?thesis using ih by auto
    next
      case False
      then have e: "k' = k" using m by auto
      have "Heap (decodeMap es ?m1) k = Heap ?m1 k \<and> segment (decodeMap es ?m1) k = segment ?m1 k"
        using ih False e by blast
      then show ?thesis using e sk hk by auto
    qed
  qed
  show ?case using a b c by blast
qed


lemma gobEncode_disk: "gobEncode ks (um\<lparr>disk := d\<rparr>) = gobEncode ks um"
  by (auto simp: gobEncode_def segment_def deref_def split: option.splits)

lemma doBackup_encoding:
  "tempFileOK e \<Longrightarrow> encodeOK e \<Longrightarrow>
   EncodeTemp (gobEncode (mapOrder e) um) \<in> set (disk (doBackup e w um))"
  by (simp add: doBackup_def Let_def gobEncode_disk)

lemma gobDecode_gobEncode:
  assumes "length (Gpr um) = 8" and "set ks = dom (Heap um)"
  shows "\<exists>um'. gobDecode (Encoded (gobEncode ks um)) (New f) = Inr um' \<and>
        Gpr um' = Gpr um \<and> dom (Heap um') = dom (Heap um) \<and>
        (\<forall>k. segment um' k = segment um k) \<and>
        NextHeap um' = NextHeap um \<and> ExFinger um' = ExFinger um"
proof -
  let ?es = "map (\<lambda>k. (k, segment um k)) ks"
  let ?m1 = "(New f)\<lparr>Gpr := Gpr um\<rparr>"
  let ?m2 = "decodeMap ?es ?m1"
  have v: "valid_heap ?m1" by (simp add: valid_heap_def New_def)
  note d = decodeMap_segments[OF v, of ?es]
  note fl = decodeMap_fields[of ?es ?m1]
  have ks: "fst ` set ?es = dom (Heap um)" using assms(2) by force
  have h: "dom (Heap ?m2) = dom (Heap um)"
  proof (rule set_eqI)
    fix k
    show "k \<in> dom (Heap ?m2) \<longleftrightarrow> k \<in> dom (Heap um)"
    proof (cases "k \<in> fst ` set ?es")
      case True
      then show ?thesis using d ks by auto
    next
      case False
      then have "Heap ?m2 k = Heap ?m1 k" using d by blast
      then show ?thesis using False ks by (auto simp: New_def)
    qed
  qed
  have sg: "\<forall>k. segment ?m2 k = segment um k"
  proof
    fix k
    show "segment ?m2 k = segment um k"
    proof (cases "k \<in> fst ` set ?es")
      case True
      then obtain xs where "(k, xs) \<in> set ?es" "segment ?m2 k = xs" using d by blast
      then show ?thesis by auto
    next
      case False
      then have "segment ?m2 k = segment ?m1 k" using d by blast
      moreover have "Heap um k = None" using False ks by auto
      ultimately show ?thesis by (simp add: segment_def deref_def New_def)
    qed
  qed
  define m2 where "m2 = ?m2"
  have f2: "Gpr m2 = Gpr um" "NextHeap m2 = 0" "ExFinger m2 = 0"
    using fl by (simp_all add: m2_def New_def)
  have sg2: "\<forall>k. segment m2 k = segment um k" and h2: "dom (Heap m2) = dom (Heap um)"
    using sg h by (simp_all add: m2_def)
  have seg_upd: "\<And>m n. segment (m\<lparr>NextHeap := n\<rparr>) = segment m"
    "\<And>m n. segment (m\<lparr>ExFinger := n\<rparr>) = segment m"
    by (auto simp: segment_def deref_def fun_eq_iff split: option.splits)
  have "gobDecode (Encoded (gobEncode ks um)) (New f)
      = Inr (let um3 = (if NextHeap um = 0 then m2 else m2\<lparr>NextHeap := NextHeap um\<rparr>)
             in if ExFinger um = 0 then um3 else um3\<lparr>ExFinger := ExFinger um\<rparr>)"
    using assms(1) by (simp add: gobDecode_def gobEncode_def Let_def m2_def)
  then show ?thesis
    using f2 sg2 h2 by (auto simp: Let_def seg_upd)
qed

text \<open>
  Claim C2: for every machine with its eight registers, and every order in which the
  encoder may enumerate the live identifiers, \<^verbatim>\<open>LoadFromBackup\<close> of the encoding on
  a new machine succeeds and yields a machine with the same registers, the same live
  identifiers with the same contents, the same counter, and the finger one less.
  \<^verbatim>\<open>LoadFromBackup\<close> always decrements the finger it decoded and passes a decoding
  error on; and the encoding is the one the checkpointer writes to its temporary file.
\<close>

theorem snapshot_round_trip:
  "(length (Gpr um) = 8 \<and> set ks = dom (Heap um) \<longrightarrow>
     (\<exists>um'. LoadFromBackup (Encoded (gobEncode ks um)) (New f) = Inr um' \<and>
        Gpr um' = Gpr um \<and> dom (Heap um') = dom (Heap um) \<and>
        (\<forall>k. segment um' k = segment um k) \<and>
        NextHeap um' = NextHeap um \<and> ExFinger um' = ExFinger um - 1)) \<and>
   (gobDecode b m = Inr m1 \<longrightarrow> LoadFromBackup b m = Inr (m1\<lparr>ExFinger := ExFinger m1 - 1\<rparr>)) \<and>
   (gobDecode b m = Inl err \<longrightarrow> LoadFromBackup b m = Inl err) \<and>
   (tempFileOK e \<and> encodeOK e \<longrightarrow>
      EncodeTemp (gobEncode (mapOrder e) um) \<in> set (disk (doBackup e w um)))"
proof -
  have seg_upd: "\<And>m n. segment (m\<lparr>ExFinger := n\<rparr>) = segment m"
    by (auto simp: segment_def deref_def fun_eq_iff split: option.splits)
  have a: "length (Gpr um) = 8 \<and> set ks = dom (Heap um) \<longrightarrow>
     (\<exists>um'. LoadFromBackup (Encoded (gobEncode ks um)) (New f) = Inr um' \<and>
        Gpr um' = Gpr um \<and> dom (Heap um') = dom (Heap um) \<and>
        (\<forall>k. segment um' k = segment um k) \<and>
        NextHeap um' = NextHeap um \<and> ExFinger um' = ExFinger um - 1)"
  proof
    assume "length (Gpr um) = 8 \<and> set ks = dom (Heap um)"
    then obtain um1 where "gobDecode (Encoded (gobEncode ks um)) (New f) = Inr um1"
      "Gpr um1 = Gpr um" "dom (Heap um1) = dom (Heap um)" "\<forall>k. segment um1 k = segment um k"
      "NextHeap um1 = NextHeap um" "ExFinger um1 = ExFinger um"
      using gobDecode_gobEncode[of um ks f] by blast
    then show "\<exists>um'. LoadFromBackup (Encoded (gobEncode ks um)) (New f) = Inr um' \<and>
        Gpr um' = Gpr um \<and> dom (Heap um') = dom (Heap um) \<and>
        (\<forall>k. segment um' k = segment um k) \<and>
        NextHeap um' = NextHeap um \<and> ExFinger um' = ExFinger um - 1"
      by (simp add: LoadFromBackup_def seg_upd)
  qed
  show ?thesis
    using a doBackup_encoding[of e um w] by (simp add: LoadFromBackup_def)
qed


theorem snapshot_round_trip_witness:
  "length (Gpr (replacing\<lparr>ExFinger := 1\<rparr>)) = 8 \<and>
   set [1, 0] = dom (Heap (replacing\<lparr>ExFinger := 1\<rparr>)) \<and>
   (\<exists>um'. LoadFromBackup (Encoded (gobEncode [1, 0] (replacing\<lparr>ExFinger := 1\<rparr>))) (New [])
            = Inr um' \<and>
      Gpr um' = [0, 1, 0, 0, 0, 0, 0, 0] \<and> dom (Heap um') = {0, 1} \<and>
      segment um' 0 = [0xC0000008] \<and> segment um' 1 = [0x70000000] \<and>
      NextHeap um' = 2 \<and> ExFinger um' = 0)"
proof -
  define m where "m = replacing\<lparr>ExFinger := 1\<rparr>"
  have h: "length (Gpr m) = 8 \<and> set [1, 0] = dom (Heap m)"
    by (simp add: m_def replacing_def)
  have v: "Gpr m = [0, 1, 0, 0, 0, 0, 0, 0]" "dom (Heap m) = {0, 1}"
    "segment m 0 = [0xC0000008]" "segment m 1 = [0x70000000]" "NextHeap m = 2"
    "ExFinger m - 1 = 0"
    by (simp_all add: m_def replacing_def segment_def deref_def insert_commute)
  have "length (Gpr m) = 8 \<and> set [1, 0] = dom (Heap m) \<longrightarrow>
     (\<exists>um'. LoadFromBackup (Encoded (gobEncode [1, 0] m)) (New []) = Inr um' \<and>
        Gpr um' = Gpr m \<and> dom (Heap um') = dom (Heap m) \<and>
        (\<forall>k. segment um' k = segment m k) \<and>
        NextHeap um' = NextHeap m \<and> ExFinger um' = ExFinger m - 1)"
    using snapshot_round_trip[of m "[1, 0]" "[]"] by (rule conjunct1)
  then have "\<exists>um'. LoadFromBackup (Encoded (gobEncode [1, 0] m)) (New []) = Inr um' \<and>
        Gpr um' = Gpr m \<and> dom (Heap um') = dom (Heap m) \<and>
        (\<forall>k. segment um' k = segment m k) \<and>
        NextHeap um' = NextHeap m \<and> ExFinger um' = ExFinger m - 1"
    using h by (rule mp)
  then obtain um' where u: "LoadFromBackup (Encoded (gobEncode [1, 0] m)) (New []) = Inr um'"
    "Gpr um' = Gpr m" "dom (Heap um') = dom (Heap m)" "\<forall>k. segment um' k = segment m k"
    "NextHeap um' = NextHeap m" "ExFinger um' = ExFinger m - 1"
    by (elim exE conjE)
  have "LoadFromBackup (Encoded (gobEncode [1, 0] m)) (New []) = Inr um' \<and>
      Gpr um' = [0, 1, 0, 0, 0, 0, 0, 0] \<and> dom (Heap um') = {0, 1} \<and>
      segment um' 0 = [0xC0000008] \<and> segment um' 1 = [0x70000000] \<and>
      NextHeap um' = 2 \<and> ExFinger um' = 0"
    using u v by simp
  then have "\<exists>um'. LoadFromBackup (Encoded (gobEncode [1, 0] m)) (New []) = Inr um' \<and>
      Gpr um' = [0, 1, 0, 0, 0, 0, 0, 0] \<and> dom (Heap um') = {0, 1} \<and>
      segment um' 0 = [0xC0000008] \<and> segment um' 1 = [0x70000000] \<and>
      NextHeap um' = 2 \<and> ExFinger um' = 0"
    by (rule exI)
  then show ?thesis using h unfolding m_def by (simp only: simp_thms)
qed

subsection \<open>The checkpointer\<close>

text \<open>
  The two gates of \<^verbatim>\<open>backup\<close> compare a \<^verbatim>\<open>time.Duration\<close>, which saturates at
  the ends of the 64-bit range, with one minute and with fifteen minutes; both bounds are
  far inside the range, so the gates are comparisons of the elapsed nanoseconds themselves.
\<close>

lemma since_gt:
  "- (2 ^ 63) \<le> c \<Longrightarrow> c < 2 ^ 63 - 1 \<Longrightarrow> since now t > c \<longleftrightarrow> now - t > c"
  by (auto simp: since_def)

lemma gate_minute: "since now t > Minute \<longleftrightarrow> now - t > 60 * 10 ^ 9"
  using since_gt[of Minute now t] by (simp add: Minute_def)

lemma gate_archive: "since now t > 15 * Minute \<longleftrightarrow> now - t > 900 * 10 ^ 9"
  using since_gt[of "15 * Minute" now t] by (simp add: Minute_def)

lemma backup_eq:
  "backup e um =
     (if backupFolder um \<noteq> [] \<and> now1 e - lastBackup um > 60 * 10 ^ 9
      then (doBackup e (now2 e - lastBackup um > 900 * 10 ^ 9) um)\<lparr>lastBackup := now3 e\<rparr>
      else um)"
  by (simp add: backup_def gate_minute gate_archive)

lemma disk_doBackup:
  "disk (doBackup e w um) = disk um @
     (if \<not> tempFileOK e then []
      else if \<not> encodeOK e then [CreateTemp]
      else [CreateTemp, EncodeTemp (gobEncode (mapOrder e) um)] @
           (if w \<and> archiveOK e then [WriteArchive (nowStamp e) (gobEncode (mapOrder e) um)] else []) @
           (if renameOK e then [RenameTemp (gobEncode (mapOrder e) um)] else []))"
  by (simp add: doBackup_def Let_def gobEncode_disk)

lemma disk_inputByte:
  "state_of (inputByte e i um) = Some um' \<Longrightarrow>
   disk um' = disk (backup e um) \<and> lastBackup um' = lastBackup (backup e um)"
  by (auto simp: inputByte_def Let_def set_reg_def split: option.splits if_splits)

text \<open>
  At exactly 900 seconds after the last checkpoint, with a backup folder configured and
  every file operation succeeding, opcode 11 writes the checkpoint (temporary file,
  encoding, rename) and no archive copy: the second gate of \<^verbatim>\<open>backup\<close> is
  \<^verbatim>\<open>time.Since(um.lastBackup) > 15*time.Minute\<close>, a strict comparison. So an archive
  copy is not emitted whenever at least 900 seconds have elapsed.
\<close>

theorem archive_not_at_900_seconds:
  "backupFolder (running ''b'' [0xB0000000]) = ''b'' \<and>
   fetch (running ''b'' [0xB0000000]) = Some 0xB0000000 \<and> opcode 0xB0000000 = 11 \<and>
   now1 (clock 900000000000) - lastBackup (running ''b'' [0xB0000000]) = 900 * 10 ^ 9 \<and>
   now2 (clock 900000000000) - lastBackup (running ''b'' [0xB0000000]) = 900 * 10 ^ 9 \<and>
   tempFileOK (clock 900000000000) \<and> encodeOK (clock 900000000000) \<and>
   archiveOK (clock 900000000000) \<and> renameOK (clock 900000000000) \<and>
   map_option disk (state_of (spin_body (clock 900000000000) (running ''b'' [0xB0000000])))
     = Some [CreateTemp,
             EncodeTemp \<lparr>sGpr = [0, 0, 0, 0, 0, 0, 0, 0], sHeap = [(0, [0xB0000000])],
                         sNextHeap = Some 1, sExFinger = Some 1\<rparr>,
             RenameTemp \<lparr>sGpr = [0, 0, 0, 0, 0, 0, 0, 0], sHeap = [(0, [0xB0000000])],
                         sNextHeap = Some 1, sExFinger = Some 1\<rparr>] \<and>
   map_option lastBackup (state_of (spin_body (clock 900000000000) (running ''b'' [0xB0000000])))
     = Some 900000000000"
  by (simp add: spin_body_def dispatch_def op_of_def inputByte_def backup_def fetch_def
      doBackup_def gobEncode_def since_def Minute_def clock_def quiet_def running_def
      opcode_def segment_def deref_def set_reg_def regC_def Let_def)

text \<open>
  Nor is an archive copy emitted whenever more than 900 seconds have elapsed: \<^verbatim>\<open>doBackup\<close>
  returns before the archive when the temporary file cannot be created (or encoded), and the
  timestamp is updated all the same.
\<close>

lemma archive_needs_temp_file:
  "now1 (clock 901000000000) - lastBackup (running ''b'' [0xB0000000]) = 901 * 10 ^ 9 \<and>
   backup ((clock 901000000000)\<lparr>tempFileOK := False\<rparr>) (running ''b'' [0xB0000000])
     = (running ''b'' [0xB0000000])\<lparr>lastBackup := 901000000000\<rparr>"
  by (simp add: backup_def doBackup_def since_def Minute_def clock_def quiet_def running_def)

text \<open>
  Claim C8, as the code has it. For every call of \<^verbatim>\<open>backup\<close>, and opcode 11 calls it
  once, on the machine with the finger advanced:
  \<^item> with no backup folder configured the machine, and with it the backup folder's
    contents, is unchanged;
  \<^item> anything is written only when a folder is configured and more than 60 seconds (hence
    at least 60 seconds) have elapsed since the last checkpoint at the first reading of the
    clock; otherwise the machine is unchanged; when the gate is open and the temporary file
    is created, encoded and renamed, the checkpoint of the machine is written;
  \<^item> an archive copy is among the writes exactly when the gate is open, more than 900
    seconds have elapsed at the second reading of the clock, and the temporary file was
    created and encoded and the archive file could be created;
  \<^item> whenever the gate is open, whether the writes succeed or not, the last-checkpoint
    timestamp becomes the time read after the attempt.
\<close>

theorem checkpoint_gate:
  "(backupFolder um = [] \<longrightarrow> backup e um = um) \<and>
   (disk (backup e um) \<noteq> disk um \<longrightarrow>
      backupFolder um \<noteq> [] \<and> now1 e - lastBackup um > 60 * 10 ^ 9) \<and>
   (\<not> (backupFolder um \<noteq> [] \<and> now1 e - lastBackup um > 60 * 10 ^ 9) \<longrightarrow> backup e um = um) \<and>
   (backupFolder um \<noteq> [] \<and> now1 e - lastBackup um > 60 * 10 ^ 9 \<and>
    tempFileOK e \<and> encodeOK e \<and> renameOK e \<longrightarrow>
      RenameTemp (gobEncode (mapOrder e) um) \<in> set (drop (length (disk um)) (disk (backup e um)))) \<and>
   ((\<exists>t s. WriteArchive t s \<in> set (drop (length (disk um)) (disk (backup e um)))) \<longleftrightarrow>
      backupFolder um \<noteq> [] \<and> now1 e - lastBackup um > 60 * 10 ^ 9 \<and>
      now2 e - lastBackup um > 900 * 10 ^ 9 \<and> tempFileOK e \<and> encodeOK e \<and> archiveOK e) \<and>
   (backupFolder um \<noteq> [] \<and> now1 e - lastBackup um > 60 * 10 ^ 9 \<longrightarrow>
      lastBackup (backup e um) = now3 e) \<and>
   (fetch um = Some i \<and> opcode i = 11 \<and> state_of (spin_body e um) = Some um' \<longrightarrow>
      disk um' = disk (backup e (um\<lparr>ExFinger := ExFinger um + 1\<rparr>)) \<and>
      lastBackup um' = lastBackup (backup e (um\<lparr>ExFinger := ExFinger um + 1\<rparr>)))"
proof -
  have a: "backupFolder um = [] \<longrightarrow> backup e um = um"
    by (simp add: backup_eq)
  have b: "disk (backup e um) \<noteq> disk um \<longrightarrow>
      backupFolder um \<noteq> [] \<and> now1 e - lastBackup um > 60 * 10 ^ 9"
    by (simp add: backup_eq)
  have c: "\<not> (backupFolder um \<noteq> [] \<and> now1 e - lastBackup um > 60 * 10 ^ 9) \<longrightarrow> backup e um = um"
    by (simp add: backup_eq)
  have d: "backupFolder um \<noteq> [] \<and> now1 e - lastBackup um > 60 * 10 ^ 9 \<and>
    tempFileOK e \<and> encodeOK e \<and> renameOK e \<longrightarrow>
      RenameTemp (gobEncode (mapOrder e) um) \<in> set (drop (length (disk um)) (disk (backup e um)))"
    by (simp add: backup_eq disk_doBackup)
  have f: "(\<exists>t s. WriteArchive t s \<in> set (drop (length (disk um)) (disk (backup e um)))) \<longleftrightarrow>
      backupFolder um \<noteq> [] \<and> now1 e - lastBackup um > 60 * 10 ^ 9 \<and>
      now2 e - lastBackup um > 900 * 10 ^ 9 \<and> tempFileOK e \<and> encodeOK e \<and> archiveOK e"
    by (auto simp: backup_eq disk_doBackup)
  have g: "backupFolder um \<noteq> [] \<and> now1 e - lastBackup um > 60 * 10 ^ 9 \<longrightarrow>
      lastBackup (backup e um) = now3 e"
    by (simp add: backup_eq)
  have h: "fetch um = Some i \<and> opcode i = 11 \<and> state_of (spin_body e um) = Some um' \<longrightarrow>
      disk um' = disk (backup e (um\<lparr>ExFinger := ExFinger um + 1\<rparr>)) \<and>
      lastBackup um' = lastBackup (backup e (um\<lparr>ExFinger := ExFinger um + 1\<rparr>))"
    using disk_inputByte[of e i "um\<lparr>ExFinger := ExFinger um + 1\<rparr>" um']
    by (auto simp: spin_body_def dispatch_opcode)
  show ?thesis using a b c d f g h by blast
qed

theorem checkpoint_gate_witness:
  "backupFolder (running [] [0xB0000000]) = [] \<and>
   backup (clock 901000000000) (running [] [0xB0000000]) = running [] [0xB0000000] \<and>
   backupFolder (running ''b'' [0xB0000000]) \<noteq> [] \<and>
   now1 (clock 901000000000) - lastBackup (running ''b'' [0xB0000000]) > 60 * 10 ^ 9 \<and>
   now2 (clock 901000000000) - lastBackup (running ''b'' [0xB0000000]) > 900 * 10 ^ 9 \<and>
   tempFileOK (clock 901000000000) \<and> encodeOK (clock 901000000000) \<and>
   archiveOK (clock 901000000000) \<and> renameOK (clock 901000000000) \<and>
   (\<exists>t s. WriteArchive t s \<in> set (drop (length (disk (running ''b'' [0xB0000000])))
       (disk (backup (clock 901000000000) (running ''b'' [0xB0000000]))))) \<and>
   RenameTemp (gobEncode (mapOrder (clock 901000000000)) (running ''b'' [0xB0000000]))
     \<in> set (drop (length (disk (running ''b'' [0xB0000000])))
       (disk (backup (clock 901000000000) (running ''b'' [0xB0000000])))) \<and>
   lastBackup (backup (clock 901000000000) (running ''b'' [0xB0000000])) = 901000000000 \<and>
   fetch (running ''b'' [0xB0000000]) = Some 0xB0000000 \<and> opcode 0xB0000000 = 11 \<and>
   (\<exists>um'. state_of (spin_body (clock 901000000000) (running ''b'' [0xB0000000])) = Some um' \<and>
      disk um' = disk (backup (clock 901000000000) ((running ''b'' [0xB0000000])\<lparr>ExFinger := 1\<rparr>)) \<and>
      lastBackup um' = 901000000000)"
proof -
  define e where "e = clock 901000000000"
  define m where "m = running ''b'' [0xB0000000]"
  define n where "n = running [] [0xB0000000]"
  define m1 where "m1 = m\<lparr>ExFinger := ExFinger m + 1\<rparr>"
  have hn: "backupFolder n = []"
    by (simp add: n_def running_def)
  have hm: "backupFolder m \<noteq> []" "now1 e - lastBackup m > 60 * 10 ^ 9"
    "now2 e - lastBackup m > 900 * 10 ^ 9" "now3 e = 901000000000" "ExFinger m = 0"
    by (simp_all add: e_def m_def clock_def quiet_def running_def)
  have he: "tempFileOK e" "encodeOK e" "archiveOK e" "renameOK e"
    by (simp_all add: e_def clock_def quiet_def)
  have hf: "fetch m = Some 0xB0000000" "opcode 0xB0000000 = 11"
    by (simp_all add: m_def running_def fetch_def opcode_def)
  have hm1: "backupFolder m1 \<noteq> []" "now1 e - lastBackup m1 > 60 * 10 ^ 9"
    using hm(1,2) by (simp_all add: m1_def)
  have "\<exists>um'. state_of (spin_body e m) = Some um'"
    by (simp add: spin_body_def dispatch_def op_of_def inputByte_def fetch_def running_def
        clock_def quiet_def Let_def e_def m_def)
  then obtain um' where u: "state_of (spin_body e m) = Some um'" ..
  note cn = checkpoint_gate[where um=n and e=e]
  note cm = checkpoint_gate[where um=m and e=e and i="0xB0000000" and um'=um']
  note cm1 = checkpoint_gate[where um=m1 and e=e]
  have a: "backup e n = n"
    using cn[THEN conjunct1] hn by (rule mp)
  have b: "\<exists>t s. WriteArchive t s \<in> set (drop (length (disk m)) (disk (backup e m)))"
    using cm[THEN conjunct2, THEN conjunct2, THEN conjunct2, THEN conjunct2, THEN conjunct1]
      hm(1-3) he(1-3) by simp
  have c: "RenameTemp (gobEncode (mapOrder e) m) \<in> set (drop (length (disk m)) (disk (backup e m)))"
    using cm[THEN conjunct2, THEN conjunct2, THEN conjunct2, THEN conjunct1]
      hm(1,2) he(1,2,4) by simp
  have f: "lastBackup (backup e m) = 901000000000"
    using cm[THEN conjunct2, THEN conjunct2, THEN conjunct2, THEN conjunct2, THEN conjunct2,
        THEN conjunct1] hm(1,2,4) by simp
  have l: "lastBackup (backup e m1) = 901000000000"
    using cm1[THEN conjunct2, THEN conjunct2, THEN conjunct2, THEN conjunct2, THEN conjunct2,
        THEN conjunct1] hm1 hm(4) by simp
  have d: "disk um' = disk (backup e m1) \<and> lastBackup um' = lastBackup (backup e m1)"
    using cm[THEN conjunct2, THEN conjunct2, THEN conjunct2, THEN conjunct2, THEN conjunct2,
        THEN conjunct2] hf u by (simp add: m1_def)
  have m1': "m1 = m\<lparr>ExFinger := 1\<rparr>"
    by (simp add: m1_def hm(5))
  have x: "\<exists>um'. state_of (spin_body e m) = Some um' \<and>
      disk um' = disk (backup e (m\<lparr>ExFinger := 1\<rparr>)) \<and> lastBackup um' = 901000000000"
    using u d l unfolding m1' by (intro exI[of _ um']) simp
  have "backupFolder n = [] \<and> backup e n = n \<and> backupFolder m \<noteq> [] \<and>
     now1 e - lastBackup m > 60 * 10 ^ 9 \<and> now2 e - lastBackup m > 900 * 10 ^ 9 \<and>
     tempFileOK e \<and> encodeOK e \<and> archiveOK e \<and> renameOK e \<and>
     (\<exists>t s. WriteArchive t s \<in> set (drop (length (disk m)) (disk (backup e m)))) \<and>
     RenameTemp (gobEncode (mapOrder e) m) \<in> set (drop (length (disk m)) (disk (backup e m))) \<and>
     lastBackup (backup e m) = 901000000000 \<and>
     fetch m = Some 0xB0000000 \<and> opcode 0xB0000000 = 11 \<and>
     (\<exists>um'. state_of (spin_body e m) = Some um' \<and>
        disk um' = disk (backup e (m\<lparr>ExFinger := 1\<rparr>)) \<and> lastBackup um' = 901000000000)"
    by (intro conjI hn a hm(1-3) he b c f hf x)
  then show ?thesis
    unfolding e_def m_def n_def .
qed

end
